theory Spec2Isabelle
  imports Complex_Main
begin

section \<open>The token-bucket rate limiter of \<^verbatim>\<open>my_menu_api/rate_limiting.py\<close>\<close>

text \<open>
  The limiter keeps one JSON object per (identifier, endpoint, window) in Redis and
  refills it continuously.  The embedding follows \<^verbatim>\<open>TokenBucketRateLimiter.is_allowed\<close>
  and \<^verbatim>\<open>RateLimitMiddleware.dispatch\<close> statement by statement.

  Conventions of the embedding:
  \<^item> Python integers are \<open>int\<close>.  A Python float is the real number it denotes, and every
    arithmetic operation on floats rounds its exact result once, as IEEE 754 prescribes:
    \<open>x + y\<close> is \<open>fl (x + y)\<close> for the rounding function \<open>fl\<close> of the machine.  The model
    takes \<open>fl\<close> as its first argument and every property below holds for every \<open>fl\<close>,
    also for round-to-nearest on binary64.  Integers are taken to convert to floats
    without error (they do below \<open>2 ^ 53\<close>), and no operation to overflow.
  \<^item> \<^verbatim>\<open>time.time()\<close> is an argument (\<open>current_time\<close>).
  \<^item> Every exception of the source is a value of \<open>py_error\<close>; the \<^verbatim>\<open>try/except\<close>
    blocks are the case distinctions on it.
  \<^item> The Redis server is a record: the key space, and a schedule that says for each
    command still to be sent whether it raises.  A command that raises leaves the key
    space as it was.  Expiry of keys is the server's own step and is not part of a call;
    the TTL passed to \<^verbatim>\<open>SETEX\<close> is recorded next to the value.
  \<^item> A stored value is the JSON object that \<^verbatim>\<open>json.loads\<close> returns; each of its three
    fields may be missing, as \<^verbatim>\<open>bucket.get(field, default)\<close> provides for.
\<close>

subsection \<open>Python values\<close>

text \<open>The four float operations of the source, each rounding once.\<close>

type_synonym rounding = "real \<Rightarrow> real"

definition fadd :: "rounding \<Rightarrow> real \<Rightarrow> real \<Rightarrow> real" where
  "fadd fl x y = fl (x + y)"

definition fsub :: "rounding \<Rightarrow> real \<Rightarrow> real \<Rightarrow> real" where
  "fsub fl x y = fl (x - y)"

definition fmul :: "rounding \<Rightarrow> real \<Rightarrow> real \<Rightarrow> real" where
  "fmul fl x y = fl (x * y)"

definition fdiv :: "rounding \<Rightarrow> real \<Rightarrow> real \<Rightarrow> real" where
  "fdiv fl x y = fl (x / y)"

datatype py_error = NameError | ZeroDivisionError | RedisError | HandlerError string

text \<open>\<^verbatim>\<open>int(x)\<close> on a float truncates towards zero.\<close>

definition py_int :: "real \<Rightarrow> int" where
  "py_int x = (if 0 \<le> x then \<lfloor>x\<rfloor> else \<lceil>x\<rceil>)"

text \<open>\<^verbatim>\<open>d.get(k, default)\<close> on a field that may be missing.\<close>

definition get_or :: "'a option \<Rightarrow> 'a \<Rightarrow> 'a" where
  "get_or field dflt = (case field of None \<Rightarrow> dflt | Some v \<Rightarrow> v)"

text \<open>\<^verbatim>\<open>custom_limit or default\<close>: \<^verbatim>\<open>None\<close> and \<^verbatim>\<open>0\<close> are falsy.\<close>

definition py_or :: "int option \<Rightarrow> int \<Rightarrow> int" where
  "py_or custom_limit dflt =
     (case custom_limit of None \<Rightarrow> dflt | Some c \<Rightarrow> if c = 0 then dflt else c)"

subsection \<open>Configuration, bucket state and the store\<close>

record RateLimitConfig =
  requests_per_minute :: int
  requests_per_hour :: int
  burst_size :: int
  redis_url :: string

record bucket =
  b_tokens :: "real option"
  b_last_refill :: "real option"
  b_requests_made :: "int option"

record redis =
  kv :: "string \<rightharpoonup> (bucket \<times> int)"
  pending :: "bool list"

type_synonym info = "string \<rightharpoonup> int"

text \<open>Each command takes the next entry of the schedule; an empty schedule never raises.\<close>

definition next_fault :: "redis \<Rightarrow> bool \<times> redis" where
  "next_fault r = (case pending r of [] \<Rightarrow> (False, r) | f # fs \<Rightarrow> (f, r\<lparr>pending := fs\<rparr>))"

text \<open>\<^verbatim>\<open>await self.redis_client.get(key)\<close> followed by \<^verbatim>\<open>json.loads\<close>.\<close>

definition redis_get :: "redis \<Rightarrow> string \<Rightarrow> (py_error + bucket option) \<times> redis" where
  "redis_get r key =
     (case next_fault r of
        (True, r') \<Rightarrow> (Inl RedisError, r')
      | (False, r') \<Rightarrow> (Inr (map_option fst (kv r' key)), r'))"

text \<open>\<^verbatim>\<open>pipe.setex(key, ttl, json.dumps(state))\<close> sent by \<^verbatim>\<open>await pipe.execute()\<close>.\<close>

definition redis_setex :: "redis \<Rightarrow> string \<Rightarrow> int \<Rightarrow> bucket \<Rightarrow> (py_error + unit) \<times> redis" where
  "redis_setex r key ttl v =
     (case next_fault r of
        (True, r') \<Rightarrow> (Inl RedisError, r')
      | (False, r') \<Rightarrow> (Inr (), r'\<lparr>kv := (kv r')(key \<mapsto> (v, ttl))\<rparr>))"

subsection \<open>\<^verbatim>\<open>TokenBucketRateLimiter.is_allowed\<close>\<close>

text \<open>Line 91: the key of a window's bucket.\<close>

definition rate_limit_key :: "string \<Rightarrow> string \<Rightarrow> string \<Rightarrow> string" where
  "rate_limit_key identifier endpoint window_name =
     ''rate_limit:'' @ identifier @ '':'' @ endpoint @ '':'' @ window_name"

text \<open>Lines 83-86: the two windows, in the order of evaluation.\<close>

definition limits :: "RateLimitConfig \<Rightarrow> int option \<Rightarrow> (string \<times> int \<times> int) list" where
  "limits config custom_limit =
     [(''minute'', 60, py_or custom_limit (requests_per_minute config)),
      (''hour'', 3600, requests_per_hour config)]"

text \<open>Lines 101-107: what the refill starts from, as (last_refill, tokens).\<close>

definition load_bucket :: "bucket option \<Rightarrow> real \<Rightarrow> int \<Rightarrow> real \<times> real" where
  "load_bucket bucket_data current_time max_requests =
     (case bucket_data of
        Some b \<Rightarrow> (get_or (b_last_refill b) current_time, get_or (b_tokens b) (of_int max_requests))
      | None \<Rightarrow> (current_time, of_int max_requests))"

text \<open>Lines 110-112: continuous refill, capped at the window's limit.\<close>

definition refill :: "rounding \<Rightarrow> int \<Rightarrow> int \<Rightarrow> real \<Rightarrow> real \<Rightarrow> real \<Rightarrow> real" where
  "refill fl max_requests window_seconds tokens last_refill current_time =
     (let time_elapsed = fsub fl current_time last_refill;
          tokens_to_add =
            fmul fl time_elapsed (fdiv fl (of_int max_requests) (of_int window_seconds))
      in min (of_int max_requests) (fadd fl tokens tokens_to_add))"

text \<open>
  The body of the \<^verbatim>\<open>for\<close> loop (lines 91-144) for one window, in three parts.

  Lines 101-126 compute the decision and the state to write.  The Python local
  \<^verbatim>\<open>bucket\<close> is assigned only when the key holds data (line 102) and is read on
  line 125 whatever happened; it is threaded through the iterations as an option, and
  reading it while unbound is the \<open>NameError\<close> that the \<^verbatim>\<open>except\<close> clause catches.
  The division of line 111 raises on a zero divisor.  The result is
  \<open>(allowed, new_tokens, bucket_state, bucket)\<close>.
\<close>

definition next_state ::
  "rounding \<Rightarrow> bucket option \<Rightarrow> bucket option \<Rightarrow> real \<Rightarrow> int \<Rightarrow> int
     \<Rightarrow> py_error + (bool \<times> real \<times> bucket \<times> bucket option)" where
  "next_state fl bucket_data bucket_var current_time window_seconds max_requests =
     (let bucket_var' = (case bucket_data of Some b \<Rightarrow> Some b | None \<Rightarrow> bucket_var);
          (last_refill, tokens) = load_bucket bucket_data current_time max_requests
      in if window_seconds = 0 then Inl ZeroDivisionError
         else
          (let new_tokens0 = refill fl max_requests window_seconds tokens last_refill current_time;
               allowed = (new_tokens0 \<ge> 1);
               new_tokens = (if allowed then fsub fl new_tokens0 1 else new_tokens0)
           in case bucket_var' of
                None \<Rightarrow> Inl NameError
              | Some b \<Rightarrow>
                  Inr (allowed, new_tokens,
                       \<lparr>b_tokens = Some new_tokens,
                        b_last_refill = Some current_time,
                        b_requests_made =
                          Some (get_or (b_requests_made b) 0 + (if allowed then 1 else 0))\<rparr>,
                       bucket_var')))"

text \<open>
  Lines 133-139, after the write: the window's entries of the info, and on a denial
  \<open>retry_after\<close>, whose division raises when the window's limit is zero.
\<close>

datatype outcome = Raised py_error | Denied info | Admitted info "bucket option"

definition window_result ::
  "rounding \<Rightarrow> string \<Rightarrow> int \<Rightarrow> int \<Rightarrow> real \<Rightarrow> bool \<Rightarrow> real \<Rightarrow> info \<Rightarrow> bucket option
     \<Rightarrow> outcome" where
  "window_result fl window_name window_seconds max_requests current_time allowed new_tokens
       rate_limit_info bucket_var =
     (let rate_limit_info' = rate_limit_info
            (window_name @ ''_remaining'' \<mapsto> py_int new_tokens,
             window_name @ ''_limit'' \<mapsto> max_requests,
             window_name @ ''_reset'' \<mapsto>
               py_int (fadd fl current_time (of_int window_seconds)))
      in if \<not> allowed then
           (if max_requests = 0 then Raised ZeroDivisionError
            else Denied (rate_limit_info'(''retry_after'' \<mapsto>
                   py_int (fmul fl (fsub fl 1 new_tokens)
                             (fdiv fl (of_int window_seconds) (of_int max_requests))))))
         else Admitted rate_limit_info' bucket_var)"

text \<open>
  The whole body: read the key, compute, write with a TTL of twice the window, report.
  Whatever raises inside the \<^verbatim>\<open>try\<close> ends the window with \<open>Raised\<close>.
\<close>

definition check_window ::
  "rounding \<Rightarrow> redis \<Rightarrow> real \<Rightarrow> string \<Rightarrow> string \<times> int \<times> int \<Rightarrow> bucket option \<Rightarrow> info
     \<Rightarrow> outcome \<times> redis" where
  "check_window fl r current_time key w bucket_var rate_limit_info =
     (case w of (window_name, window_seconds, max_requests) \<Rightarrow>
      (case redis_get r key of
         (Inl e, r1) \<Rightarrow> (Raised e, r1)
       | (Inr bucket_data, r1) \<Rightarrow>
          (case next_state fl bucket_data bucket_var current_time window_seconds max_requests of
             Inl e \<Rightarrow> (Raised e, r1)
           | Inr (allowed, new_tokens, bucket_state, bucket_var') \<Rightarrow>
              (case redis_setex r1 key (window_seconds * 2) bucket_state of
                 (Inl e, r2) \<Rightarrow> (Raised e, r2)
               | (Inr _, r2) \<Rightarrow>
                   (window_result fl window_name window_seconds max_requests current_time
                      allowed new_tokens rate_limit_info bucket_var', r2)))))"

text \<open>
  The loop over the windows: a denial returns at once, any exception returns
  \<^verbatim>\<open>(True, {})\<close>, and after the last window the collected info is returned.
\<close>

fun windows_loop ::
  "rounding \<Rightarrow> redis \<Rightarrow> real \<Rightarrow> string \<Rightarrow> string \<Rightarrow> (string \<times> int \<times> int) list \<Rightarrow> bucket option \<Rightarrow> info
     \<Rightarrow> (bool \<times> info) \<times> redis" where
  "windows_loop fl r current_time identifier endpoint [] bucket_var rate_limit_info =
     ((True, rate_limit_info), r)"
| "windows_loop fl r current_time identifier endpoint (w # ws) bucket_var rate_limit_info =
     (case check_window fl r current_time (rate_limit_key identifier endpoint (fst w)) w
             bucket_var rate_limit_info of
        (Raised e, r') \<Rightarrow> ((True, Map.empty), r')
      | (Denied rate_limit_info', r') \<Rightarrow> ((False, rate_limit_info'), r')
      | (Admitted rate_limit_info' bucket_var', r') \<Rightarrow>
          windows_loop fl r' current_time identifier endpoint ws bucket_var' rate_limit_info')"

text \<open>
  \<open>redis_client\<close> is \<open>None\<close> until \<^verbatim>\<open>init\<close> has connected; otherwise it gives access to
  the server's state.
\<close>

definition is_allowed ::
  "rounding \<Rightarrow> RateLimitConfig \<Rightarrow> redis option \<Rightarrow> real \<Rightarrow> string \<Rightarrow> string \<Rightarrow> int option
     \<Rightarrow> (bool \<times> info) \<times> redis option" where
  "is_allowed fl config redis_client current_time identifier endpoint custom_limit =
     (case redis_client of
        None \<Rightarrow> ((True, Map.empty), None)
      | Some r \<Rightarrow>
          (case windows_loop fl r current_time identifier endpoint (limits config custom_limit)
                  None Map.empty of
             (res, r') \<Rightarrow> (res, Some r')))"

subsection \<open>\<^verbatim>\<open>RateLimitMiddleware\<close>\<close>

text \<open>
  A request is what \<^verbatim>\<open>dispatch\<close> reads of it: the path, the headers (looked up under
  the names the source uses), the peer address when there is one, and
  \<^verbatim>\<open>str(request.state.user.id)\<close> when the request state carries a user.  A response
  is its status, its headers and its body; the headers that \<^verbatim>\<open>JSONResponse\<close> adds for
  the content type and length are left out.
\<close>

record request =
  path :: string
  req_headers :: "string \<rightharpoonup> string"
  client_host :: "string option"
  state_user_id :: "string option"

datatype jvalue = JStr string | JInt int

datatype body = Json "(string \<times> jvalue) list" | Opaque string

record response =
  status_code :: int
  headers :: "string \<rightharpoonup> string"
  content :: body

text \<open>\<^verbatim>\<open>str(n)\<close> for an integer: decimal digits, with a minus sign when negative.\<close>

definition digit_char :: "nat \<Rightarrow> char" where
  "digit_char d = ''0123456789'' ! d"

fun str_nat :: "nat \<Rightarrow> string" where
  "str_nat n = (if n < 10 then [digit_char n] else str_nat (n div 10) @ [digit_char (n mod 10)])"

declare str_nat.simps [simp del]

definition str_int :: "int \<Rightarrow> string" where
  "str_int i = (if i < 0 then CHR ''-'' # str_nat (nat (- i)) else str_nat (nat i))"

text \<open>
  \<^verbatim>\<open>s.startswith(p)\<close>, \<^verbatim>\<open>s.split(",")[0]\<close> and \<^verbatim>\<open>s.strip()\<close>; the characters that
  \<^verbatim>\<open>strip\<close> removes are those of \<^verbatim>\<open>str.isspace\<close> below 256.
\<close>

definition startswith :: "string \<Rightarrow> string \<Rightarrow> bool" where
  "startswith s p = (take (length p) s = p)"

definition split_first :: "string \<Rightarrow> string" where
  "split_first s = takeWhile (\<lambda>c. c \<noteq> CHR '','') s"

definition is_space :: "char \<Rightarrow> bool" where
  "is_space c = ((of_char c :: nat) \<in> {9, 10, 11, 12, 13, 28, 29, 30, 31, 32, 133, 160})"

definition strip :: "string \<Rightarrow> string" where
  "strip s = rev (dropWhile is_space (rev (dropWhile is_space s)))"

text \<open>Lines 158-168: the tables set up by \<^verbatim>\<open>__init__\<close>.\<close>

definition endpoint_limits :: "string \<rightharpoonup> int" where
  "endpoint_limits = [''/auth/login'' \<mapsto> 5, ''/auth/register'' \<mapsto> 3, ''/images/upload'' \<mapsto> 10]"

definition excluded_paths :: "string list" where
  "excluded_paths =
     [''/docs'', ''/redoc'', ''/openapi.json'', ''/healthz'', ''/readiness'', ''/liveness'',
      ''/metrics'']"

text \<open>Lines 241-253.\<close>

definition get_client_ip :: "request \<Rightarrow> string" where
  "get_client_ip request =
     (case req_headers request ''X-Forwarded-For'' of
        Some (c # cs) \<Rightarrow> strip (split_first (c # cs))
      | _ \<Rightarrow>
         (case req_headers request ''X-Real-IP'' of
            Some (c # cs) \<Rightarrow> c # cs
          | _ \<Rightarrow> (case client_host request of Some host \<Rightarrow> host | None \<Rightarrow> ''unknown'')))"

text \<open>Lines 255-265.\<close>

definition get_user_id :: "request \<Rightarrow> string option" where
  "get_user_id request = state_user_id request"

text \<open>Lines 180-182: \<^verbatim>\<open>user_id if user_id else client_ip\<close>.\<close>

definition identifier_of :: "request \<Rightarrow> string" where
  "identifier_of request =
     (let client_ip = get_client_ip request;
          user_id = get_user_id request
      in case user_id of Some (c # cs) \<Rightarrow> c # cs | _ \<Rightarrow> client_ip)"

text \<open>
  Lines 205-207 and again 216-218: the three header values, read from the minute
  window's entries of the info with the defaults of the source.  \<open>header_time\<close> is the
  clock when the default of the reset time is computed.
\<close>

definition limit_header :: "RateLimitConfig \<Rightarrow> info \<Rightarrow> string" where
  "limit_header config rate_info =
     str_int (get_or (rate_info ''minute_limit'') (requests_per_minute config))"

definition remaining_header :: "info \<Rightarrow> string" where
  "remaining_header rate_info = str_int (get_or (rate_info ''minute_remaining'') 0)"

definition reset_header :: "info \<Rightarrow> real \<Rightarrow> string" where
  "reset_header rate_info header_time =
     str_int (get_or (rate_info ''minute_reset'') (py_int header_time + 60))"

text \<open>
  Lines 170-239.  \<open>call_next\<close> runs the rest of the application on a state \<open>world\<close> of its
  own and either returns a response or raises.  Inside the \<^verbatim>\<open>try\<close> only \<open>call_next\<close>
  can raise (\<open>is_allowed\<close> catches everything itself), and the \<^verbatim>\<open>except\<close> clause then
  calls it a second time.
\<close>

definition dispatch ::
  "rounding \<Rightarrow> RateLimitConfig \<Rightarrow> redis option \<Rightarrow> real \<Rightarrow> real \<Rightarrow> request
     \<Rightarrow> (request \<Rightarrow> 'w \<Rightarrow> (py_error + response) \<times> 'w) \<Rightarrow> 'w
     \<Rightarrow> (py_error + response) \<times> redis option \<times> 'w" where
  "dispatch fl config redis_client current_time header_time request call_next world =
     (if list_ex (startswith (path request)) excluded_paths then
        (case call_next request world of (res, world') \<Rightarrow> (res, redis_client, world'))
      else
        (let identifier = identifier_of request;
             endpoint = path request;
             custom_limit = endpoint_limits endpoint
         in case is_allowed fl config redis_client current_time identifier endpoint custom_limit
              of
              ((allowed, rate_info), redis_client') \<Rightarrow>
                if \<not> allowed then
                  (Inr \<lparr>status_code = 429,
                        headers =
                          [''Retry-After'' \<mapsto> str_int (get_or (rate_info ''retry_after'') 60),
                           ''X-RateLimit-Limit'' \<mapsto> limit_header config rate_info,
                           ''X-RateLimit-Remaining'' \<mapsto> remaining_header rate_info,
                           ''X-RateLimit-Reset'' \<mapsto> reset_header rate_info header_time],
                        content =
                          Json [(''error'', JStr ''Rate limit exceeded''),
                                (''message'', JStr ''Too many requests. Please try again later.''),
                                (''retry_after'', JInt (get_or (rate_info ''retry_after'') 60))]\<rparr>,
                   redis_client', world)
                else
                  (case call_next request world of
                     (Inl e, world') \<Rightarrow>
                       (case call_next request world' of
                          (res, world'') \<Rightarrow> (res, redis_client', world''))
                   | (Inr response, world') \<Rightarrow>
                       (Inr (if rate_info \<noteq> Map.empty then
                               response\<lparr>headers := (headers response)
                                 (''X-RateLimit-Limit'' \<mapsto> limit_header config rate_info,
                                  ''X-RateLimit-Remaining'' \<mapsto> remaining_header rate_info,
                                  ''X-RateLimit-Reset'' \<mapsto> reset_header rate_info header_time)\<rparr>
                             else response),
                        redis_client', world'))))"

section \<open>Terms used to state the properties\<close>

subsection \<open>Concrete inputs\<close>

text \<open>
  The rounding that rounds nothing (on the small integers and the fractions of a power of
  two of the inputs below, binary64 rounds nothing either), the configuration and the
  request of the spec's scenario, stores holding nothing, full or partly used buckets for identifier \<open>1.2.3.4\<close> and endpoint \<open>/test\<close> (with a schedule
  of faults), a downstream handler that counts its calls, and a run of \<open>n\<close> successive
  calls at one instant.
\<close>

definition exact :: rounding where
  "exact x = x"

definition cfg5 :: RateLimitConfig where
  "cfg5 = \<lparr>requests_per_minute = 5, requests_per_hour = 1000, burst_size = 10,
            redis_url = ''redis://localhost:6379''\<rparr>"

definition empty_store :: redis where
  "empty_store = \<lparr>kv = Map.empty, pending = []\<rparr>"

definition stored :: "real \<Rightarrow> real \<Rightarrow> int \<Rightarrow> bucket" where
  "stored tok refilled n = \<lparr>b_tokens = Some tok, b_last_refill = Some refilled, b_requests_made = Some n\<rparr>"

definition seeded_store :: "real \<Rightarrow> real \<Rightarrow> bool list \<Rightarrow> redis" where
  "seeded_store minute_tokens hour_tokens schedule =
     \<lparr>kv = [''rate_limit:1.2.3.4:/test:minute'' \<mapsto> (stored minute_tokens 0 0, 120),
            ''rate_limit:1.2.3.4:/test:hour'' \<mapsto> (stored hour_tokens 0 0, 7200)],
      pending = schedule\<rparr>"

definition minute_only_store :: redis where
  "minute_only_store =
     \<lparr>kv = [''rate_limit:1.2.3.4:/test:minute'' \<mapsto> (stored 5 0 0, 120)], pending = []\<rparr>"

definition test_request :: request where
  "test_request =
     \<lparr>path = ''/test'', req_headers = Map.empty, client_host = Some ''1.2.3.4'',
      state_user_id = None\<rparr>"

definition ok_response :: response where
  "ok_response = \<lparr>status_code = 200, headers = Map.empty, content = Opaque ''ok''\<rparr>"

definition ok_handler :: "request \<Rightarrow> nat \<Rightarrow> (py_error + response) \<times> nat" where
  "ok_handler request world = (Inr ok_response, Suc world)"

fun repeat_calls ::
  "rounding \<Rightarrow> nat \<Rightarrow> RateLimitConfig \<Rightarrow> redis option \<Rightarrow> real \<Rightarrow> string \<Rightarrow> string \<Rightarrow> int option
     \<Rightarrow> (bool \<times> info) list" where
  "repeat_calls fl 0 config redis_client t identifier endpoint custom_limit = []"
| "repeat_calls fl (Suc n) config redis_client t identifier endpoint custom_limit =
     (case is_allowed fl config redis_client t identifier endpoint custom_limit of
        (res, redis_client') \<Rightarrow> res # repeat_calls fl n config redis_client' t identifier endpoint custom_limit)"

subsection \<open>Token count, faults and commands of a call\<close>

text \<open>
  \<open>tokens_now\<close> is the value of \<open>new_tokens\<close> after line 112: the stored (or synthesized)
  bucket refilled up to time \<open>t\<close>.  \<open>faulty r\<close> says that the next command sent to \<open>r\<close>
  raises, \<open>sent r\<close> is \<open>r\<close> after one command, and \<open>commands_sent r r'\<close> is the part of the
  schedule that was used up between \<open>r\<close> and \<open>r'\<close>.
\<close>

definition tokens_now :: "rounding \<Rightarrow> bucket option \<Rightarrow> real \<Rightarrow> int \<Rightarrow> int \<Rightarrow> real" where
  "tokens_now fl bucket_data t window_seconds max_requests =
     (case load_bucket bucket_data t max_requests of
        (last_refill, tokens) \<Rightarrow> refill fl max_requests window_seconds tokens last_refill t)"

definition faulty :: "redis \<Rightarrow> bool" where
  "faulty r = (case pending r of [] \<Rightarrow> False | f # _ \<Rightarrow> f)"

definition sent :: "redis \<Rightarrow> redis" where
  "sent r = r\<lparr>pending := tl (pending r)\<rparr>"

definition commands_sent :: "redis \<Rightarrow> redis \<Rightarrow> bool list" where
  "commands_sent r r' = take (length (pending r) - length (pending r')) (pending r)"

section \<open>Properties\<close>

subsection \<open>The store commands and one window\<close>

lemma next_fault_eq: "next_fault r = (faulty r, sent r)"
  by (cases "pending r") (simp_all add: next_fault_def faulty_def sent_def)

lemma redis_get_eq:
  "redis_get r key = (if faulty r then Inl RedisError else Inr (map_option fst (kv r key)), sent r)"
  by (simp add: redis_get_def next_fault_eq sent_def)

lemma redis_setex_eq:
  "redis_setex r key ttl v =
     (if faulty r then (Inl RedisError, sent r) else (Inr (), (sent r)\<lparr>kv := (kv r)(key \<mapsto> (v, ttl))\<rparr>))"
  by (simp add: redis_setex_def next_fault_eq sent_def)

lemma kv_sent [simp]: "kv (sent r) = kv r"
  by (simp add: sent_def)

lemma pending_sent: "pending (sent r) = tl (pending r)"
  by (simp add: sent_def)

lemma sent_kv_update [simp]: "sent (r\<lparr>kv := m\<rparr>) = (sent r)\<lparr>kv := m\<rparr>"
  by (simp add: sent_def)

lemma faulty_kv_update [simp]: "faulty (r\<lparr>kv := m\<rparr>) = faulty r"
  by (simp add: faulty_def)

text \<open>
  The four ways through the body of the loop: the read raises; the computation raises (an
  unbound \<open>bucket\<close> or a zero divisor); the write raises; the state is written.
\<close>

lemma check_window_faulty:
  "faulty r \<Longrightarrow> check_window fl r t key w bv nfo = (Raised RedisError, sent r)"
  by (simp add: check_window_def redis_get_eq split: prod.splits)

lemma check_window_error:
  "\<not> faulty r \<Longrightarrow> next_state fl (map_option fst (kv r key)) bv t secs mx = Inl err \<Longrightarrow>
   check_window fl r t key (name, secs, mx) bv nfo = (Raised err, sent r)"
  by (simp add: check_window_def redis_get_eq)

lemma check_window_write_faulty:
  "\<not> faulty r \<Longrightarrow> next_state fl (map_option fst (kv r key)) bv t secs mx = Inr (al, nt, st, bv') \<Longrightarrow>
   faulty (sent r) \<Longrightarrow>
   check_window fl r t key (name, secs, mx) bv nfo = (Raised RedisError, sent (sent r))"
  by (simp add: check_window_def redis_get_eq redis_setex_eq)

lemma check_window_written:
  "\<not> faulty r \<Longrightarrow> next_state fl (map_option fst (kv r key)) bv t secs mx = Inr (al, nt, st, bv') \<Longrightarrow>
   \<not> faulty (sent r) \<Longrightarrow>
   check_window fl r t key (name, secs, mx) bv nfo =
     (window_result fl name secs mx t al nt nfo bv',
      (sent (sent r))\<lparr>kv := (kv r)(key \<mapsto> (st, secs * 2))\<rparr>)"
  by (simp add: check_window_def redis_get_eq redis_setex_eq)

lemma check_window_cases [case_names get_raises computes_raises write_raises written]:
  obtains
    "faulty r" "check_window fl r t key w bv nfo = (Raised RedisError, sent r)"
  | err where "\<not> faulty r"
      "next_state fl (map_option fst (kv r key)) bv t (fst (snd w)) (snd (snd w)) = Inl err"
      "check_window fl r t key w bv nfo = (Raised err, sent r)"
  | al nt st bv' where "\<not> faulty r" "faulty (sent r)"
      "next_state fl (map_option fst (kv r key)) bv t (fst (snd w)) (snd (snd w)) = Inr (al, nt, st, bv')"
      "check_window fl r t key w bv nfo = (Raised RedisError, sent (sent r))"
  | al nt st bv' where "\<not> faulty r" "\<not> faulty (sent r)"
      "next_state fl (map_option fst (kv r key)) bv t (fst (snd w)) (snd (snd w)) = Inr (al, nt, st, bv')"
      "check_window fl r t key w bv nfo =
         (window_result fl (fst w) (fst (snd w)) (snd (snd w)) t al nt nfo bv',
          (sent (sent r))\<lparr>kv := (kv r)(key \<mapsto> (st, fst (snd w) * 2))\<rparr>)"
proof -
  obtain name secs mx where w: "w = (name, secs, mx)" by (cases w)
  show thesis
  proof (cases "faulty r")
    case True
    then show ?thesis using that(1) check_window_faulty by blast
  next
    case nf: False
    show ?thesis
    proof (cases "next_state fl (map_option fst (kv r key)) bv t secs mx")
      case (Inl err)
      with nf w show ?thesis using that(2) check_window_error by simp
    next
      case (Inr res)
      obtain al nt st bv' where res: "res = (al, nt, st, bv')" by (cases res)
      show ?thesis
      proof (cases "faulty (sent r)")
        case True
        with nf w Inr res show ?thesis
          using that(3) [of al nt st bv'] check_window_write_faulty [of r fl key bv t secs mx al nt st bv' name nfo] by simp
      next
        case False
        with nf w Inr res show ?thesis
          using that(4) [of al nt st bv'] check_window_written [of r fl key bv t secs mx al nt st bv' name nfo] by simp
      qed
    qed
  qed
qed

text \<open>
  A window touches only its own key, and it stops at the first command that raises.
\<close>

lemma commands_sent_append: "pending r = cs @ pending r' \<Longrightarrow> commands_sent r r' = cs"
  by (simp add: commands_sent_def)

lemma pending_faulty: "faulty r \<Longrightarrow> pending r = True # pending (sent r)"
  by (cases "pending r") (simp_all add: faulty_def pending_sent)

lemma pending_not_faulty:
  "\<not> faulty r \<Longrightarrow> \<exists>cs. pending r = cs @ pending (sent r) \<and> True \<notin> set cs"
proof (cases "pending r")
  case Nil
  then show ?thesis by (simp add: pending_sent)
next
  case (Cons f fs)
  assume "\<not> faulty r"
  with Cons have "pending r = [f] @ pending (sent r) \<and> True \<notin> set [f]"
    by (simp add: faulty_def pending_sent)
  then show ?thesis by blast
qed

lemma check_window_other_key:
  "k \<noteq> key \<Longrightarrow> kv (snd (check_window fl r t key w bv nfo)) k = kv r k"
  by (cases rule: check_window_cases [where fl=fl and r=r and t=t and key=key and w=w and bv=bv and nfo=nfo]) simp_all

lemma check_window_frame:
  assumes "k \<noteq> key"
  shows "check_window fl (r\<lparr>kv := (kv r)(k := v)\<rparr>) t key w bv nfo =
     (fst (check_window fl r t key w bv nfo),
      (snd (check_window fl r t key w bv nfo))\<lparr>kv := (kv (snd (check_window fl r t key w bv nfo)))(k := v)\<rparr>)"
proof -
  obtain name secs mx where w: "w = (name, secs, mx)" by (cases w)
  let ?r = "r\<lparr>kv := (kv r)(k := v)\<rparr>"
  have same: "map_option fst (kv ?r key) = map_option fst (kv r key)"
    using assms by simp
  show ?thesis
  proof (cases rule: check_window_cases [where fl=fl and r=r and t=t and key=key and w=w and bv=bv and nfo=nfo])
    case get_raises
    then show ?thesis by (simp add: check_window_faulty)
  next
    case (computes_raises err)
    then show ?thesis
      using check_window_error [of ?r fl key bv t secs mx err name nfo] same w by simp
  next
    case (write_raises al nt st bv')
    then show ?thesis
      using check_window_write_faulty [of ?r fl key bv t secs mx al nt st bv' name nfo] same w by simp
  next
    case (written al nt st bv')
    then show ?thesis
      using check_window_written [of ?r fl key bv t secs mx al nt st bv' name nfo] same w assms
      by (simp add: fun_upd_twist)
  qed
qed

lemma check_window_pending:
  "\<exists>cs. pending r = cs @ pending (snd (check_window fl r t key w bv nfo)) \<and>
     (True \<in> set cs \<longrightarrow> fst (check_window fl r t key w bv nfo) = Raised RedisError \<and> last cs = True)"
proof (cases rule: check_window_cases [where fl=fl and r=r and t=t and key=key and w=w and bv=bv and nfo=nfo])
  case get_raises
  then have "pending r = [True] @ pending (snd (check_window fl r t key w bv nfo))"
    using pending_faulty [of r] by simp
  with get_raises show ?thesis by (intro exI [of _ "[True]"]) simp
next
  case (computes_raises err)
  then obtain c1 where "pending r = c1 @ pending (sent r)" "True \<notin> set c1"
    using pending_not_faulty by blast
  with computes_raises show ?thesis by (intro exI [of _ c1]) simp
next
  case (write_raises al nt st bv')
  then obtain c1 where c1: "pending r = c1 @ pending (sent r)" "True \<notin> set c1"
    using pending_not_faulty by blast
  from write_raises have "pending (sent r) = True # pending (sent (sent r))"
    by (intro pending_faulty)
  with c1 write_raises show ?thesis by (intro exI [of _ "c1 @ [True]"]) simp
next
  case (written al nt st bv')
  then obtain c1 where c1: "pending r = c1 @ pending (sent r)" "True \<notin> set c1"
    using pending_not_faulty by blast
  from written obtain c2 where "pending (sent r) = c2 @ pending (sent (sent r))" "True \<notin> set c2"
    using pending_not_faulty by blast
  with c1 written show ?thesis by (intro exI [of _ "c1 @ c2"]) simp
qed

subsection \<open>The loop over the windows\<close>

lemma windows_loop_pending:
  "\<exists>cs. pending r = cs @ pending (snd (windows_loop fl r t i e ws bv nfo)) \<and>
     (True \<in> set cs \<longrightarrow> fst (windows_loop fl r t i e ws bv nfo) = (True, Map.empty) \<and> last cs = True)"
proof (induction ws arbitrary: r bv nfo)
  case Nil
  show ?case by simp
next
  case (Cons w ws)
  let ?cw = "check_window fl r t (rate_limit_key i e (fst w)) w bv nfo"
  obtain c1 where c1: "pending r = c1 @ pending (snd ?cw)"
    "True \<in> set c1 \<longrightarrow> fst ?cw = Raised RedisError \<and> last c1 = True"
    using check_window_pending by blast
  show ?case
  proof (cases "fst ?cw")
    case (Raised err)
    then have "windows_loop fl r t i e (w # ws) bv nfo = ((True, Map.empty), snd ?cw)"
      by (cases ?cw) simp
    with c1 show ?thesis by (intro exI [of _ c1]) simp
  next
    case (Denied nfo')
    then have "windows_loop fl r t i e (w # ws) bv nfo = ((False, nfo'), snd ?cw)"
      by (cases ?cw) simp
    with c1 Denied show ?thesis by (intro exI [of _ c1]) simp
  next
    case (Admitted nfo' bv')
    then have eq: "windows_loop fl r t i e (w # ws) bv nfo = windows_loop fl (snd ?cw) t i e ws bv' nfo'"
      by (cases ?cw) simp
    from Admitted c1 have no1: "True \<notin> set c1" by auto
    obtain c2 where c2: "pending (snd ?cw) = c2 @ pending (snd (windows_loop fl (snd ?cw) t i e ws bv' nfo'))"
      "True \<in> set c2 \<longrightarrow> fst (windows_loop fl (snd ?cw) t i e ws bv' nfo') = (True, Map.empty) \<and> last c2 = True"
      using Cons.IH by blast
    have "True \<in> set c2 \<Longrightarrow> c2 \<noteq> []" by auto
    with c1 c2 no1 eq show ?thesis by (intro exI [of _ "c1 @ c2"]) auto
  qed
qed

lemma windows_loop_frame:
  assumes "\<forall>w \<in> set ws. rate_limit_key i e (fst w) \<noteq> k"
  shows "windows_loop fl (r\<lparr>kv := (kv r)(k := v)\<rparr>) t i e ws bv nfo =
     (fst (windows_loop fl r t i e ws bv nfo),
      (snd (windows_loop fl r t i e ws bv nfo))\<lparr>kv := (kv (snd (windows_loop fl r t i e ws bv nfo)))(k := v)\<rparr>)"
  using assms
proof (induction ws arbitrary: r bv nfo)
  case Nil
  show ?case by simp
next
  case (Cons w ws)
  let ?key = "rate_limit_key i e (fst w)"
  from Cons.prems have ne: "k \<noteq> ?key" by auto
  from Cons.prems have rest: "\<forall>w \<in> set ws. rate_limit_key i e (fst w) \<noteq> k" by simp
  obtain out r1 where cw: "check_window fl r t ?key w bv nfo = (out, r1)"
    by (cases "check_window fl r t ?key w bv nfo")
  then have cw': "check_window fl (r\<lparr>kv := (kv r)(k := v)\<rparr>) t ?key w bv nfo = (out, r1\<lparr>kv := (kv r1)(k := v)\<rparr>)"
    using check_window_frame [OF ne, of fl r v t w bv nfo] by simp
  let ?r2 = "r\<lparr>kv := (kv r)(k := v)\<rparr>"
  show ?case
  proof (cases out)
    case (Raised err)
    have "windows_loop fl ?r2 t i e (w # ws) bv nfo = ((True, Map.empty), r1\<lparr>kv := (kv r1)(k := v)\<rparr>)"
      by (simp only: windows_loop.simps cw' Raised prod.case outcome.case)
    moreover have "windows_loop fl r t i e (w # ws) bv nfo = ((True, Map.empty), r1)"
      by (simp only: windows_loop.simps cw Raised prod.case outcome.case)
    ultimately show ?thesis by (simp only: fst_conv snd_conv)
  next
    case (Denied nfo')
    have "windows_loop fl ?r2 t i e (w # ws) bv nfo = ((False, nfo'), r1\<lparr>kv := (kv r1)(k := v)\<rparr>)"
      by (simp only: windows_loop.simps cw' Denied prod.case outcome.case)
    moreover have "windows_loop fl r t i e (w # ws) bv nfo = ((False, nfo'), r1)"
      by (simp only: windows_loop.simps cw Denied prod.case outcome.case)
    ultimately show ?thesis by (simp only: fst_conv snd_conv)
  next
    case (Admitted nfo' bv')
    have "windows_loop fl ?r2 t i e (w # ws) bv nfo =
            windows_loop fl (r1\<lparr>kv := (kv r1)(k := v)\<rparr>) t i e ws bv' nfo'"
      by (simp only: windows_loop.simps cw' Admitted prod.case outcome.case)
    moreover have "windows_loop fl r t i e (w # ws) bv nfo = windows_loop fl r1 t i e ws bv' nfo'"
      by (simp only: windows_loop.simps cw Admitted prod.case outcome.case)
    ultimately show ?thesis using Cons.IH [OF rest, of r1 bv' nfo'] by (simp only:)
  qed
qed

subsection \<open>Fail-open\<close>

lemma is_allowed_Some:
  "is_allowed fl config (Some r) t i e cl =
     (fst (windows_loop fl r t i e (limits config cl) None Map.empty),
      Some (snd (windows_loop fl r t i e (limits config cl) None Map.empty)))"
  by (simp add: is_allowed_def split: prod.splits)

lemma is_allowed_eq:
  "is_allowed fl config (Some r) t i e cl = (res, Some r') \<longleftrightarrow>
     windows_loop fl r t i e (limits config cl) None Map.empty = (res, r')"
  by (auto simp: is_allowed_Some prod_eq_iff)

lemma minute_key_eq: "rate_limit_key i e ''minute'' = ''rate_limit:'' @ i @ '':'' @ e @ '':minute''"
  by (simp add: rate_limit_key_def)

lemma hour_key_eq: "rate_limit_key i e ''hour'' = ''rate_limit:'' @ i @ '':'' @ e @ '':hour''"
  by (simp add: rate_limit_key_def)

lemma keys_differ: "rate_limit_key i e ''minute'' \<noteq> rate_limit_key i e ''hour''"
  by (simp add: rate_limit_key_def)

lemma next_state_Inr:
  assumes "next_state fl bd bv t secs mx = Inr (al, nt, st, bv')"
  obtains b where "secs \<noteq> 0" "bv' = Some b"
    "(case bd of Some b' \<Rightarrow> Some b' | None \<Rightarrow> bv) = Some b"
    "al = (1 \<le> tokens_now fl bd t secs mx)"
    "nt = (if al then fsub fl (tokens_now fl bd t secs mx) 1 else tokens_now fl bd t secs mx)"
    "st = \<lparr>b_tokens = Some nt, b_last_refill = Some t,
           b_requests_made = Some (get_or (b_requests_made b) 0 + (if al then 1 else 0))\<rparr>"
proof -
  obtain lr tk where lb: "load_bucket bd t mx = (lr, tk)" by (cases "load_bucket bd t mx")
  then have tn: "tokens_now fl bd t secs mx = refill fl mx secs tk lr t"
    by (simp add: tokens_now_def)
  from assms lb have secs: "secs \<noteq> 0"
    by (auto simp: next_state_def Let_def split: if_splits)
  with assms lb obtain b where b: "(case bd of Some b' \<Rightarrow> Some b' | None \<Rightarrow> bv) = Some b"
    by (auto simp: next_state_def Let_def split: option.splits)
  from assms lb secs b tn have rest:
    "bv' = Some b" "al = (1 \<le> tokens_now fl bd t secs mx)"
    "nt = (if al then fsub fl (tokens_now fl bd t secs mx) 1 else tokens_now fl bd t secs mx)"
    "st = \<lparr>b_tokens = Some nt, b_last_refill = Some t,
           b_requests_made = Some (get_or (b_requests_made b) 0 + (if al then 1 else 0))\<rparr>"
    by (auto simp: next_state_def Let_def)
  show thesis by (rule that [OF secs rest(1) b rest(2,3,4)])
qed

text \<open>
  Claim C3.  Fail-open: without a client the call returns \<open>(True, {})\<close>; with a client,
  if any store command sent by the call raises, the call returns \<open>(True, {})\<close>, and the
  raising command is the last one the call sends (nothing is retried).
\<close>

theorem fail_open:
  "is_allowed fl config None t identifier endpoint custom_limit = ((True, Map.empty), None) \<and>
   (\<forall>r res r'. is_allowed fl config (Some r) t identifier endpoint custom_limit = (res, Some r') \<and>
        True \<in> set (commands_sent r r') \<longrightarrow>
        res = (True, Map.empty) \<and> last (commands_sent r r') = True)"
proof (intro conjI allI impI)
  show "is_allowed fl config None t identifier endpoint custom_limit = ((True, Map.empty), None)"
    by (simp add: is_allowed_def)
next
  fix r res r'
  assume a: "is_allowed fl config (Some r) t identifier endpoint custom_limit = (res, Some r') \<and>
        True \<in> set (commands_sent r r')"
  let ?wl = "windows_loop fl r t identifier endpoint (limits config custom_limit) None Map.empty"
  from a have res: "res = fst ?wl" and r': "r' = snd ?wl"
    by (simp_all add: is_allowed_Some)
  obtain cs where cs: "pending r = cs @ pending (snd ?wl)"
    "True \<in> set cs \<longrightarrow> fst ?wl = (True, Map.empty) \<and> last cs = True"
    using windows_loop_pending by blast
  from cs(1) r' have "commands_sent r r' = cs"
    by (simp add: commands_sent_append)
  with a cs(2) res show "res = (True, Map.empty)" and "last (commands_sent r r') = True"
    by simp_all
qed

subsection \<open>The first request for a key\<close>

lemmas eval_defs = is_allowed_def limits_def check_window_def next_state_def window_result_def
  redis_get_def redis_setex_def next_fault_def load_bucket_def refill_def get_or_def py_or_def
  py_int_def rate_limit_key_def Let_def cfg5_def empty_store_def seeded_store_def stored_def
  fadd_def fsub_def fmul_def fdiv_def exact_def

lemma windows_loop_limits:
  "windows_loop fl r t i e (limits config cl) None Map.empty =
     (case check_window fl r t (rate_limit_key i e ''minute'')
             (''minute'', 60, py_or cl (requests_per_minute config)) None Map.empty of
        (Raised err, r1) \<Rightarrow> ((True, Map.empty), r1)
      | (Denied nfo, r1) \<Rightarrow> ((False, nfo), r1)
      | (Admitted nfo bv, r1) \<Rightarrow>
          (case check_window fl r1 t (rate_limit_key i e ''hour'')
                  (''hour'', 3600, requests_per_hour config) bv nfo of
             (Raised err, r2) \<Rightarrow> ((True, Map.empty), r2)
           | (Denied nfo', r2) \<Rightarrow> ((False, nfo'), r2)
           | (Admitted nfo' bv', r2) \<Rightarrow> ((True, nfo'), r2)))"
  by (simp add: limits_def split: prod.splits outcome.splits)

text \<open>
  Claim C1.  The scenario of the claim, run on the code: \<open>requests_per_minute = 5\<close>, a
  store with no prior state, six calls for identifier \<open>1.2.3.4\<close> and endpoint \<open>/test\<close> at
  the same instant.  The claim expects the sixth call to be denied.  On the code, whatever the
  rounding of the arithmetic, all six calls, the sixth included, return \<open>(True, {})\<close>: with no stored bucket the local
  \<open>bucket\<close> of line 125 is unbound, the \<open>NameError\<close> is caught by the fail-open clause of
  line 141, and nothing is ever written.
\<close>

theorem six_calls_on_empty_store:
  "repeat_calls fl 6 cfg5 (Some empty_store) t ''1.2.3.4'' ''/test'' None = replicate 6 (True, Map.empty)"
  by (simp add: eval_defs eval_nat_numeral)

text \<open>
  Claim C2.  The claim expects a call for a key with no stored bucket to persist
  \<open>tokens = max_requests - 1\<close> and \<open>requests_made = 1\<close>.  On the code, whenever the minute
  window's key holds nothing, the call returns \<open>(True, {})\<close> and leaves every key of the
  store as it was: nothing is persisted, for any configuration, time and schedule of
  store faults.
\<close>

theorem first_touch_not_persisted:
  assumes "kv r (rate_limit_key identifier endpoint ''minute'') = None"
  shows "\<exists>r'. is_allowed fl config (Some r) t identifier endpoint custom_limit = ((True, Map.empty), Some r') \<and>
              kv r' = kv r"
proof -
  let ?key = "rate_limit_key identifier endpoint ''minute''"
  let ?w = "(''minute'', 60::int, py_or custom_limit (requests_per_minute config))"
  have ns: "next_state fl (map_option fst (kv r ?key)) None t 60 (py_or custom_limit (requests_per_minute config))
              = Inl NameError"
    using assms by (simp add: next_state_def Let_def split: prod.splits)
  have "check_window fl r t ?key ?w None Map.empty = (Raised RedisError, sent r) \<or>
        check_window fl r t ?key ?w None Map.empty = (Raised NameError, sent r)"
    using check_window_faulty [of r fl t ?key ?w None "Map.empty"]
      check_window_error [OF _ ns, of "''minute''" "Map.empty"]
    by blast
  then have "windows_loop fl r t identifier endpoint (limits config custom_limit) None Map.empty
               = ((True, Map.empty), sent r)"
    by (auto simp: windows_loop_limits)
  then show ?thesis by (simp add: is_allowed_Some)
qed

text \<open>Claim C2: the theorem of this claim at a concrete input, with its hypotheses discharged.\<close>

theorem first_touch_not_persisted_witness:
  "kv empty_store (rate_limit_key ''1.2.3.4'' ''/test'' ''minute'') = None \<and>
   (\<exists>r'. is_allowed exact cfg5 (Some empty_store) 0 ''1.2.3.4'' ''/test'' None = ((True, Map.empty), Some r') \<and>
         kv r' = kv empty_store)"
proof -
  have h: "kv empty_store (rate_limit_key ''1.2.3.4'' ''/test'' ''minute'') = None"
    by (simp add: empty_store_def)
  from first_touch_not_persisted [OF h, of exact cfg5 0 None] h show ?thesis by blast
qed

text \<open>
  For comparison: when both buckets are already stored and full, five calls are admitted
  and the sixth is denied with \<open>retry_after = 12\<close>.
\<close>

lemma seeded_scenario:
  "map fst (repeat_calls exact 6 cfg5 (Some (seeded_store 5 1000 [])) 0 ''1.2.3.4'' ''/test'' None)
     = [True, True, True, True, True, False] \<and>
   snd (repeat_calls exact 6 cfg5 (Some (seeded_store 5 1000 [])) 0 ''1.2.3.4'' ''/test'' None ! 5) ''retry_after''
     = Some 12"
  by (simp add: eval_defs eval_nat_numeral)

subsection \<open>The keys of a call\<close>

lemma windows_loop_other_key:
  assumes "\<forall>w \<in> set ws. rate_limit_key i e (fst w) \<noteq> k"
  shows "kv (snd (windows_loop fl r t i e ws bv nfo)) k = kv r k"
proof -
  have "windows_loop fl (r\<lparr>kv := (kv r)(k := kv r k)\<rparr>) t i e ws bv nfo = windows_loop fl r t i e ws bv nfo"
    by simp
  then have "snd (windows_loop fl r t i e ws bv nfo) =
      (snd (windows_loop fl r t i e ws bv nfo))\<lparr>kv := (kv (snd (windows_loop fl r t i e ws bv nfo)))(k := kv r k)\<rparr>"
    using windows_loop_frame [OF assms, of fl r "kv r k" t bv nfo] by (metis snd_conv)
  then have "kv (snd (windows_loop fl r t i e ws bv nfo)) k =
      kv ((snd (windows_loop fl r t i e ws bv nfo))\<lparr>kv := (kv (snd (windows_loop fl r t i e ws bv nfo)))(k := kv r k)\<rparr>) k"
    by simp
  then show ?thesis by simp
qed

lemma limits_keys:
  assumes "k \<noteq> ''rate_limit:'' @ i @ '':'' @ e @ '':minute''"
    and "k \<noteq> ''rate_limit:'' @ i @ '':'' @ e @ '':hour''"
  shows "\<forall>w \<in> set (limits config cl). rate_limit_key i e (fst w) \<noteq> k"
  using assms by (auto simp: limits_def rate_limit_key_def)

lemma check_window_written_key:
  assumes "check_window fl r t key (name, secs, mx) bv nfo = (out, r')"
    and "\<forall>err. out \<noteq> Raised err"
  shows "\<exists>b. kv r' key = Some (b, secs * 2) \<and> b_last_refill b = Some t"
proof (cases rule: check_window_cases [where fl=fl and r=r and t=t and key=key and w="(name, secs, mx)" and bv=bv and nfo=nfo])
  case get_raises
  with assms show ?thesis by auto
next
  case (computes_raises err)
  with assms show ?thesis by auto
next
  case (write_raises al nt st bv')
  with assms show ?thesis by auto
next
  case (written al nt st bv')
  from written(3) have "b_last_refill st = Some t" by (rule next_state_Inr) simp
  with written assms(1) show ?thesis by auto
qed

text \<open>
  Claim C4, amended: the keys are \<open>rate_limit:{identifier}:{endpoint}:minute\<close> and
  \<open>rate_limit:{identifier}:{endpoint}:hour\<close> (with an underscore).  For any other key
  \<open>k\<close>: the call leaves \<open>k\<close> as it was, and what is stored under \<open>k\<close> has no influence on
  the result or on the rest of the store (so \<open>k\<close> is neither written nor read); and
  whenever the call returns a non-empty info, the minute key holds a state written by
  this call, with TTL 120.
\<close>

theorem store_keys_of_is_allowed:
  assumes "k \<noteq> ''rate_limit:'' @ identifier @ '':'' @ endpoint @ '':minute''"
    and "k \<noteq> ''rate_limit:'' @ identifier @ '':'' @ endpoint @ '':hour''"
    and "is_allowed fl config (Some r) t identifier endpoint custom_limit = (res, Some r')"
  shows "kv r' k = kv r k \<and>
    is_allowed fl config (Some (r\<lparr>kv := (kv r)(k := v)\<rparr>)) t identifier endpoint custom_limit =
      (res, Some (r'\<lparr>kv := (kv r')(k := v)\<rparr>)) \<and>
    (snd res \<noteq> Map.empty \<longrightarrow>
      (\<exists>b. kv r' (''rate_limit:'' @ identifier @ '':'' @ endpoint @ '':minute'') = Some (b, 120) \<and>
           b_last_refill b = Some t))"
proof (intro conjI impI)
  let ?ws = "limits config custom_limit"
  let ?wl = "windows_loop fl r t identifier endpoint ?ws None Map.empty"
  have keys: "\<forall>w \<in> set ?ws. rate_limit_key identifier endpoint (fst w) \<noteq> k"
    using assms(1,2) by (rule limits_keys)
  from assms(3) have res: "res = fst ?wl" and r': "r' = snd ?wl"
    by (simp_all add: is_allowed_Some)
  show "kv r' k = kv r k"
    unfolding r' using keys by (rule windows_loop_other_key)
  show "is_allowed fl config (Some (r\<lparr>kv := (kv r)(k := v)\<rparr>)) t identifier endpoint custom_limit =
      (res, Some (r'\<lparr>kv := (kv r')(k := v)\<rparr>))"
    unfolding is_allowed_Some res r' using windows_loop_frame [OF keys, of fl r v t None Map.empty]
    by simp
  assume ne: "snd res \<noteq> Map.empty"
  let ?kmin = "rate_limit_key identifier endpoint ''minute''"
  let ?khour = "rate_limit_key identifier endpoint ''hour''"
  let ?wmin = "(''minute'', 60::int, py_or custom_limit (requests_per_minute config))"
  obtain out r1 where cw: "check_window fl r t ?kmin ?wmin None Map.empty = (out, r1)"
    by (cases "check_window fl r t ?kmin ?wmin None Map.empty")
  have wl: "(res, r') = ?wl" using res r' by simp
  from ne wl cw have nr: "\<forall>err. out \<noteq> Raised err"
    by (auto simp: windows_loop_limits)
  from check_window_written_key [OF cw nr]
  obtain b where b: "kv r1 ?kmin = Some (b, 120)" "b_last_refill b = Some t" by auto
  have "kv r' ?kmin = kv r1 ?kmin"
  proof (cases out)
    case (Admitted nfo bv)
    with wl cw have "r' = snd (check_window fl r1 t ?khour (''hour'', 3600, requests_per_hour config) bv nfo)"
      by (auto simp: windows_loop_limits split: prod.splits outcome.splits)
    then show ?thesis using check_window_other_key [OF keys_differ] by simp
  qed (use wl cw in \<open>auto simp: windows_loop_limits\<close>)
  with b show "\<exists>b. kv r' (''rate_limit:'' @ identifier @ '':'' @ endpoint @ '':minute'') = Some (b, 120) \<and>
           b_last_refill b = Some t"
    by (simp add: minute_key_eq)
qed

lemma is_allowed_result:
  "is_allowed fl config (Some r) t i e cl =
     (fst (is_allowed fl config (Some r) t i e cl), Some (the (snd (is_allowed fl config (Some r) t i e cl))))"
  by (simp add: is_allowed_Some)

text \<open>
  Claim C4 as stated fails: the key of the code is not \<open>ratelimit:...\<close>; after a call the
  state is under \<open>rate_limit:1.2.3.4:/test:minute\<close> and nothing is under
  \<open>ratelimit:1.2.3.4:/test:minute\<close>.
\<close>

theorem store_key_counterexample:
  "rate_limit_key ''1.2.3.4'' ''/test'' ''minute'' \<noteq> ''ratelimit:1.2.3.4:/test:minute'' \<and>
   kv (the (snd (is_allowed exact cfg5 (Some (seeded_store 5 1000 [])) 0 ''1.2.3.4'' ''/test'' None)))
      ''ratelimit:1.2.3.4:/test:minute'' = None \<and>
   kv (the (snd (is_allowed exact cfg5 (Some (seeded_store 5 1000 [])) 0 ''1.2.3.4'' ''/test'' None)))
      ''rate_limit:1.2.3.4:/test:minute'' = Some (stored 4 0 1, 120)"
  by (simp add: eval_defs)

text \<open>Claim C4: the theorem of this claim at a concrete input, with its hypotheses discharged.\<close>

theorem store_keys_of_is_allowed_witness:
  "''ratelimit:1.2.3.4:/test:minute'' \<noteq> ''rate_limit:'' @ ''1.2.3.4'' @ '':'' @ ''/test'' @ '':minute'' \<and>
   ''ratelimit:1.2.3.4:/test:minute'' \<noteq> ''rate_limit:'' @ ''1.2.3.4'' @ '':'' @ ''/test'' @ '':hour'' \<and>
   kv (the (snd (is_allowed exact cfg5 (Some (seeded_store 5 1000 [])) 0 ''1.2.3.4'' ''/test'' None)))
      ''ratelimit:1.2.3.4:/test:minute'' = kv (seeded_store 5 1000 []) ''ratelimit:1.2.3.4:/test:minute'' \<and>
   (\<exists>b. kv (the (snd (is_allowed exact cfg5 (Some (seeded_store 5 1000 [])) 0 ''1.2.3.4'' ''/test'' None)))
      (''rate_limit:'' @ ''1.2.3.4'' @ '':'' @ ''/test'' @ '':minute'') = Some (b, 120) \<and>
      b_last_refill b = Some 0)"
proof -
  let ?k = "''ratelimit:1.2.3.4:/test:minute''"
  let ?X = "is_allowed exact cfg5 (Some (seeded_store 5 1000 [])) 0 ''1.2.3.4'' ''/test'' None"
  have h1: "?k \<noteq> ''rate_limit:'' @ ''1.2.3.4'' @ '':'' @ ''/test'' @ '':minute''" by simp
  have h2: "?k \<noteq> ''rate_limit:'' @ ''1.2.3.4'' @ '':'' @ ''/test'' @ '':hour''" by simp
  have h3: "?X = (fst ?X, Some (the (snd ?X)))" by (rule is_allowed_result)
  have ne: "snd (fst ?X) \<noteq> Map.empty"
  proof
    assume "snd (fst ?X) = Map.empty"
    then have "snd (fst ?X) ''minute_limit'' = None" by simp
    then show False by (simp add: eval_defs)
  qed
  from store_keys_of_is_allowed [OF h1 h2 h3, of None] h1 h2 ne show ?thesis by blast
qed

subsection \<open>Admission and denial of one window\<close>

lemma window_result_Admitted:
  "window_result fl name secs mx t al nt nfo bv = Admitted nfo' bv' \<Longrightarrow>
     al \<and> bv' = bv \<and>
     nfo' = nfo(name @ ''_remaining'' \<mapsto> py_int nt, name @ ''_limit'' \<mapsto> mx,
                name @ ''_reset'' \<mapsto> py_int (fadd fl t (of_int secs)))"
  by (auto simp: window_result_def Let_def split: if_splits)

lemma window_result_Denied:
  "window_result fl name secs mx t al nt nfo bv = Denied nfo' \<Longrightarrow>
     \<not> al \<and> mx \<noteq> 0 \<and>
     nfo' = nfo(name @ ''_remaining'' \<mapsto> py_int nt, name @ ''_limit'' \<mapsto> mx,
                name @ ''_reset'' \<mapsto> py_int (fadd fl t (of_int secs)),
                ''retry_after'' \<mapsto>
                  py_int (fmul fl (fsub fl 1 nt) (fdiv fl (of_int secs) (of_int mx))))"
  by (auto simp: window_result_def Let_def split: if_splits)

lemma load_bucket_Some:
  "load_bucket (Some b) t mx = (get_or (b_last_refill b) t, get_or (b_tokens b) (of_int mx))"
  by (simp add: load_bucket_def)

lemma next_state_bound:
  "secs \<noteq> 0 \<Longrightarrow> \<exists>x. next_state fl bd (Some b) t secs mx = Inr x"
  by (auto simp: next_state_def Let_def split: option.splits prod.splits)

lemma next_state_Some:
  assumes "secs \<noteq> 0"
    and "(case bd of Some b' \<Rightarrow> Some b' | None \<Rightarrow> bv) = Some b"
  shows "next_state fl bd bv t secs mx =
     Inr (1 \<le> tokens_now fl bd t secs mx,
          (if 1 \<le> tokens_now fl bd t secs mx then fsub fl (tokens_now fl bd t secs mx) 1
           else tokens_now fl bd t secs mx),
          \<lparr>b_tokens = Some (if 1 \<le> tokens_now fl bd t secs mx
                             then fsub fl (tokens_now fl bd t secs mx) 1
                             else tokens_now fl bd t secs mx),
           b_last_refill = Some t,
           b_requests_made = Some (get_or (b_requests_made b) 0 +
                                   (if 1 \<le> tokens_now fl bd t secs mx then 1 else 0))\<rparr>,
          Some b)"
proof -
  obtain lr tk where lb: "load_bucket bd t mx = (lr, tk)" by (cases "load_bucket bd t mx")
  then have tn: "tokens_now fl bd t secs mx = refill fl mx secs tk lr t"
    by (simp add: tokens_now_def)
  from assms lb show ?thesis
    unfolding tn by (simp add: next_state_def Let_def)
qed

lemma take2_faulty:
  "True \<in> set (take 2 (pending r)) \<Longrightarrow> faulty r \<or> faulty (sent r)"
proof (cases "pending r")
  case Nil
  then show "True \<in> set (take 2 (pending r)) \<Longrightarrow> ?thesis" by simp
next
  case (Cons f fs)
  then show "True \<in> set (take 2 (pending r)) \<Longrightarrow> ?thesis"
    by (cases fs) (auto simp: faulty_def pending_sent numeral_2_eq_2)
qed

lemma take_Suc_not_faulty:
  assumes "True \<notin> set (take (Suc n) (pending r))"
  shows "\<not> faulty r \<and> True \<notin> set (take n (pending (sent r)))"
  using assms by (cases "pending r") (auto simp: faulty_def pending_sent)

lemma check_window_Admitted:
  assumes "check_window fl r t key (name, secs, mx) bv nfo = (Admitted nfo' bv', r')"
  obtains b where "bv' = Some b"
    "(case map_option fst (kv r key) of Some b' \<Rightarrow> Some b' | None \<Rightarrow> bv) = Some b"
    "1 \<le> tokens_now fl (map_option fst (kv r key)) t secs mx"
    "kv r' = (kv r)(key \<mapsto>
       (\<lparr>b_tokens = Some (fsub fl (tokens_now fl (map_option fst (kv r key)) t secs mx) 1),
         b_last_refill = Some t,
         b_requests_made = Some (get_or (b_requests_made b) 0 + 1)\<rparr>, secs * 2))"
proof (cases rule: check_window_cases [where fl=fl and r=r and t=t and key=key and w="(name, secs, mx)" and bv=bv and nfo=nfo])
  case get_raises
  with assms show ?thesis by auto
next
  case (computes_raises err)
  with assms show ?thesis by auto
next
  case (write_raises al nt st b1)
  with assms show ?thesis by auto
next
  case (written al nt st b1)
  with assms have wr: "window_result fl name secs mx t al nt nfo b1 = Admitted nfo' bv'"
    and r': "r' = (sent (sent r))\<lparr>kv := (kv r)(key \<mapsto> (st, secs * 2))\<rparr>"
    by auto
  from window_result_Admitted [OF wr] have al: al and bv': "bv' = b1" by auto
  from written(3) have ns: "next_state fl (map_option fst (kv r key)) bv t secs mx = Inr (al, nt, st, b1)"
    by simp
  from ns show ?thesis
  proof (rule next_state_Inr)
    fix b
    assume "b1 = Some b"
      "(case map_option fst (kv r key) of Some b' \<Rightarrow> Some b' | None \<Rightarrow> bv) = Some b"
      "al = (1 \<le> tokens_now fl (map_option fst (kv r key)) t secs mx)"
      "nt = (if al then fsub fl (tokens_now fl (map_option fst (kv r key)) t secs mx) 1
             else tokens_now fl (map_option fst (kv r key)) t secs mx)"
      "st = \<lparr>b_tokens = Some nt, b_last_refill = Some t,
           b_requests_made = Some (get_or (b_requests_made b) 0 + (if al then 1 else 0))\<rparr>"
    with al bv' r' show ?thesis by (intro that [of b]) simp_all
  qed
qed

lemma check_window_Denied:
  assumes "check_window fl r t key (name, secs, mx) bv nfo = (Denied nfo', r')"
  obtains b where "mx \<noteq> 0"
    "(case map_option fst (kv r key) of Some b' \<Rightarrow> Some b' | None \<Rightarrow> bv) = Some b"
    "tokens_now fl (map_option fst (kv r key)) t secs mx < 1"
    "nfo' ''retry_after'' =
       Some (py_int (fmul fl (fsub fl 1 (tokens_now fl (map_option fst (kv r key)) t secs mx))
                       (fdiv fl (of_int secs) (of_int mx))))"
    "kv r' = (kv r)(key \<mapsto>
       (\<lparr>b_tokens = Some (tokens_now fl (map_option fst (kv r key)) t secs mx),
         b_last_refill = Some t,
         b_requests_made = Some (get_or (b_requests_made b) 0)\<rparr>, secs * 2))"
proof (cases rule: check_window_cases [where fl=fl and r=r and t=t and key=key and w="(name, secs, mx)" and bv=bv and nfo=nfo])
  case get_raises
  with assms show ?thesis by auto
next
  case (computes_raises err)
  with assms show ?thesis by auto
next
  case (write_raises al nt st b1)
  with assms show ?thesis by auto
next
  case (written al nt st b1)
  with assms have wr: "window_result fl name secs mx t al nt nfo b1 = Denied nfo'"
    and r': "r' = (sent (sent r))\<lparr>kv := (kv r)(key \<mapsto> (st, secs * 2))\<rparr>"
    by auto
  from window_result_Denied [OF wr] have al: "\<not> al" and mx: "mx \<noteq> 0"
    and ra: "nfo' ''retry_after'' =
       Some (py_int (fmul fl (fsub fl 1 nt) (fdiv fl (of_int secs) (of_int mx))))" by auto
  from written(3) have ns: "next_state fl (map_option fst (kv r key)) bv t secs mx = Inr (al, nt, st, b1)"
    by simp
  from ns show ?thesis
  proof (rule next_state_Inr)
    fix b
    assume "b1 = Some b"
      "(case map_option fst (kv r key) of Some b' \<Rightarrow> Some b' | None \<Rightarrow> bv) = Some b"
      "al = (1 \<le> tokens_now fl (map_option fst (kv r key)) t secs mx)"
      "nt = (if al then fsub fl (tokens_now fl (map_option fst (kv r key)) t secs mx) 1
             else tokens_now fl (map_option fst (kv r key)) t secs mx)"
      "st = \<lparr>b_tokens = Some nt, b_last_refill = Some t,
           b_requests_made = Some (get_or (b_requests_made b) 0 + (if al then 1 else 0))\<rparr>"
    with al mx ra r' show ?thesis by (intro that [of b]) simp_all
  qed
qed

lemma check_window_Raised_kv:
  assumes "faulty r \<or> faulty (sent r)"
  shows "kv (snd (check_window fl r t key w bv nfo)) = kv r"
proof (cases rule: check_window_cases [where fl=fl and r=r and t=t and key=key and w=w and bv=bv and nfo=nfo])
  case (written al nt st b1)
  with assms show ?thesis by simp
qed simp_all

lemma check_window_Raised_redis:
  assumes "faulty r \<or> faulty (sent r)" and "fst (snd w) \<noteq> 0"
  shows "fst (check_window fl r t key w (Some b) nfo) = Raised RedisError"
proof (cases rule: check_window_cases [where fl=fl and r=r and t=t and key=key and w=w and bv="Some b" and nfo=nfo])
  case (computes_raises err)
  with next_state_bound [OF assms(2), of fl "map_option fst (kv r key)" b t "snd (snd w)"]
  show ?thesis by simp
next
  case (written al nt st b1)
  with assms show ?thesis by simp
qed simp_all

text \<open>
  The way through the body when neither command raises and a bucket is bound: the state
  is written and the outcome is that of lines 133-139.
\<close>

lemma check_window_ok:
  assumes "\<not> faulty r" "\<not> faulty (sent r)" "secs \<noteq> 0"
    and "(case map_option fst (kv r key) of Some b' \<Rightarrow> Some b' | None \<Rightarrow> bv) = Some b"
  shows "check_window fl r t key (name, secs, mx) bv nfo =
     (window_result fl name secs mx t
        (1 \<le> tokens_now fl (map_option fst (kv r key)) t secs mx)
        (if 1 \<le> tokens_now fl (map_option fst (kv r key)) t secs mx
         then fsub fl (tokens_now fl (map_option fst (kv r key)) t secs mx) 1
         else tokens_now fl (map_option fst (kv r key)) t secs mx) nfo (Some b),
      (sent (sent r))\<lparr>kv := (kv r)(key \<mapsto>
        (\<lparr>b_tokens = Some (if 1 \<le> tokens_now fl (map_option fst (kv r key)) t secs mx
                            then fsub fl (tokens_now fl (map_option fst (kv r key)) t secs mx) 1
                            else tokens_now fl (map_option fst (kv r key)) t secs mx),
          b_last_refill = Some t,
          b_requests_made = Some (get_or (b_requests_made b) 0 +
             (if 1 \<le> tokens_now fl (map_option fst (kv r key)) t secs mx then 1 else 0))\<rparr>,
         secs * 2))\<rparr>)"
  by (rule check_window_written [OF assms(1) next_state_Some [OF assms(3,4)] assms(2)])

lemma sent_sent: "sent (sent r) = r\<lparr>pending := drop 2 (pending r)\<rparr>"
  by (cases "pending r") (simp_all add: sent_def numeral_2_eq_2 drop_Suc)

text \<open>
  Claim C10.  When the minute window admits and a store command of the hour window's
  check then raises, the call returns \<open>(True, {})\<close> and the minute key still holds the state
  written by the minute window: one token less than the refilled count,
  \<open>last_refill = now\<close>, \<open>requests_made\<close> one more than before.
\<close>

theorem consumed_token_not_rolled_back:
  assumes "check_window fl r t (rate_limit_key identifier endpoint ''minute'')
             (''minute'', 60, py_or custom_limit (requests_per_minute config)) None Map.empty
           = (Admitted rate_info bucket_var, r1)"
    and "True \<in> set (take 2 (pending r1))"
    and "is_allowed fl config (Some r) t identifier endpoint custom_limit = (res, Some r2)"
  shows "res = (True, Map.empty) \<and>
    (\<exists>b new_tokens.
       map_option fst (kv r (rate_limit_key identifier endpoint ''minute'')) = Some b \<and>
       new_tokens = tokens_now fl (Some b) t 60 (py_or custom_limit (requests_per_minute config)) \<and>
       1 \<le> new_tokens \<and>
       kv r2 (rate_limit_key identifier endpoint ''minute'') =
         Some (\<lparr>b_tokens = Some (fsub fl new_tokens 1), b_last_refill = Some t,
                b_requests_made = Some (get_or (b_requests_made b) 0 + 1)\<rparr>, 120))"
proof -
  let ?kmin = "rate_limit_key identifier endpoint ''minute''"
  let ?khour = "rate_limit_key identifier endpoint ''hour''"
  let ?mx = "py_or custom_limit (requests_per_minute config)"
  let ?whour = "(''hour'', 3600::int, requests_per_hour config)"
  from assms(1) obtain b where bv: "bucket_var = Some b"
    and bd0: "(case map_option fst (kv r ?kmin) of Some b' \<Rightarrow> Some b' | None \<Rightarrow> None) = Some b"
    and ge: "1 \<le> tokens_now fl (map_option fst (kv r ?kmin)) t 60 ?mx"
    and kv1: "kv r1 = (kv r)(?kmin \<mapsto>
       (\<lparr>b_tokens = Some (fsub fl (tokens_now fl (map_option fst (kv r ?kmin)) t 60 ?mx) 1),
         b_last_refill = Some t,
         b_requests_made = Some (get_or (b_requests_made b) 0 + 1)\<rparr>, 60 * 2))"
    by (rule check_window_Admitted)
  from bd0 have bd: "map_option fst (kv r ?kmin) = Some b"
    by (cases "map_option fst (kv r ?kmin)") simp_all
  let ?cw = "check_window fl r1 t ?khour ?whour (Some b) rate_info"
  from assms(2) have f: "faulty r1 \<or> faulty (sent r1)" by (rule take2_faulty)
  then have raised: "fst ?cw = Raised RedisError"
    by (intro check_window_Raised_redis) simp_all
  from f have kv2: "kv (snd ?cw) = kv r1" by (rule check_window_Raised_kv)
  from assms(1) bv raised have wl:
    "windows_loop fl r t identifier endpoint (limits config custom_limit) None Map.empty
       = ((True, Map.empty), snd ?cw)"
    by (cases ?cw) (simp add: windows_loop_limits)
  with assms(3) have res: "res = (True, Map.empty)" and r2: "r2 = snd ?cw"
    by (simp_all add: is_allowed_Some)
  have st: "kv r2 ?kmin = Some (\<lparr>b_tokens = Some (fsub fl (tokens_now fl (Some b) t 60 ?mx) 1), b_last_refill = Some t,
                b_requests_made = Some (get_or (b_requests_made b) 0 + 1)\<rparr>, 120)"
    unfolding r2 kv2 kv1 bd by simp
  from ge have ge': "1 \<le> tokens_now fl (Some b) t 60 ?mx" unfolding bd .
  from bd ge' st have "\<exists>b new_tokens.
       map_option fst (kv r ?kmin) = Some b \<and>
       new_tokens = tokens_now fl (Some b) t 60 ?mx \<and> 1 \<le> new_tokens \<and>
       kv r2 ?kmin =
         Some (\<lparr>b_tokens = Some (fsub fl new_tokens 1), b_last_refill = Some t,
                b_requests_made = Some (get_or (b_requests_made b) 0 + 1)\<rparr>, 120)"
    by blast
  with res show ?thesis by (rule conjI)
qed

subsection \<open>The value of \<open>retry_after\<close>\<close>

lemma py_int_bounds:
  assumes "0 \<le> x"
  shows "0 \<le> py_int x \<and> of_int (py_int x) \<le> x \<and> x < of_int (py_int x) + 1"
proof -
  from assms have eq: "py_int x = \<lfloor>x\<rfloor>" by (simp only: py_int_def if_True)
  from assms have a: "0 \<le> \<lfloor>x\<rfloor>" by (simp only: zero_le_floor)
  have b: "of_int \<lfloor>x\<rfloor> \<le> x" by (rule of_int_floor_le)
  have c: "x < of_int \<lfloor>x\<rfloor> + 1" by linarith
  show ?thesis unfolding eq using a b c by (intro conjI)
qed

lemma computed_wait_nonneg:
  fixes nt :: real
  assumes "nt < 1" "0 < mx" "0 < secs" and sign: "\<forall>x. 0 \<le> x \<longrightarrow> 0 \<le> fl x"
  shows "0 \<le> fmul fl (fsub fl 1 nt) (fdiv fl (of_int secs) (of_int mx))"
proof -
  from assms(1) sign have a: "0 \<le> fsub fl 1 nt" by (simp add: fsub_def)
  from assms(2,3) have "0 \<le> real_of_int secs / real_of_int mx" by simp
  with sign have b: "0 \<le> fdiv fl (of_int secs) (of_int mx)" by (simp add: fdiv_def)
  from a b have "0 \<le> fsub fl 1 nt * fdiv fl (of_int secs) (of_int mx)"
    by (rule mult_nonneg_nonneg)
  with sign show ?thesis by (simp add: fmul_def)
qed

lemma retry_after_bounds:
  fixes nt :: real
  assumes "nt < 1" "0 < secs"
  shows "(\<forall>x. 0 \<le> x \<longrightarrow> 0 \<le> fl x) \<and> 0 < mx \<longrightarrow>
     0 \<le> py_int (fmul fl (fsub fl 1 nt) (fdiv fl (of_int secs) (of_int mx))) \<and>
     of_int (py_int (fmul fl (fsub fl 1 nt) (fdiv fl (of_int secs) (of_int mx))))
       \<le> fmul fl (fsub fl 1 nt) (fdiv fl (of_int secs) (of_int mx)) \<and>
     fmul fl (fsub fl 1 nt) (fdiv fl (of_int secs) (of_int mx))
       < of_int (py_int (fmul fl (fsub fl 1 nt) (fdiv fl (of_int secs) (of_int mx)))) + 1 \<and>
     (\<forall>tol. \<bar>fmul fl (fsub fl 1 nt) (fdiv fl (of_int secs) (of_int mx)) -
              (1 - nt) * (of_int secs / of_int mx)\<bar> \<le> tol \<longrightarrow>
        (1 - nt) * (of_int secs / of_int mx) - tol - 1
          < of_int (py_int (fmul fl (fsub fl 1 nt) (fdiv fl (of_int secs) (of_int mx)))) \<and>
        of_int (py_int (fmul fl (fsub fl 1 nt) (fdiv fl (of_int secs) (of_int mx))))
          \<le> (1 - nt) * (of_int secs / of_int mx) + tol)"
proof
  let ?c = "fmul fl (fsub fl 1 nt) (fdiv fl (of_int secs) (of_int mx))"
  let ?w = "(1 - nt) * (real_of_int secs / real_of_int mx)"
  assume h: "(\<forall>x. 0 \<le> x \<longrightarrow> 0 \<le> fl x) \<and> 0 < mx"
  then have "0 \<le> ?c"
    using assms by (intro computed_wait_nonneg) simp_all
  then have b: "0 \<le> py_int ?c \<and> of_int (py_int ?c) \<le> ?c \<and> ?c < of_int (py_int ?c) + 1"
    by (rule py_int_bounds)
  then have b1: "0 \<le> py_int ?c" and b2: "of_int (py_int ?c) \<le> ?c"
    and b3: "?c < of_int (py_int ?c) + 1" by blast+
  have b4: "\<forall>tol. \<bar>?c - ?w\<bar> \<le> tol \<longrightarrow>
      ?w - tol - 1 < of_int (py_int ?c) \<and> of_int (py_int ?c) \<le> ?w + tol"
  proof (intro allI impI)
    fix tol :: real
    assume "\<bar>?c - ?w\<bar> \<le> tol"
    with b2 b3 show "?w - tol - 1 < of_int (py_int ?c) \<and> of_int (py_int ?c) \<le> ?w + tol"
      by linarith
  qed
  show "0 \<le> py_int ?c \<and> of_int (py_int ?c) \<le> ?c \<and> ?c < of_int (py_int ?c) + 1 \<and>
     (\<forall>tol. \<bar>?c - ?w\<bar> \<le> tol \<longrightarrow>
        ?w - tol - 1 < of_int (py_int ?c) \<and> of_int (py_int ?c) \<le> ?w + tol)"
    by (intro conjI b1 b2 b3 b4)
qed

lemma denied_window:
  assumes "check_window fl r1 t (rate_limit_key i e name) (name, secs, mx) bv nfo = (Denied rate_info, r2)"
    and "kv r1 (rate_limit_key i e name) = kv r (rate_limit_key i e name)"
    and "0 < secs"
  shows "case (name, secs, mx) of (window_name, window_seconds, max_requests) \<Rightarrow>
     let new_tokens = tokens_now fl
           (map_option fst (kv r (rate_limit_key i e window_name)))
           t window_seconds max_requests;
         computed = fmul fl (fsub fl 1 new_tokens)
                      (fdiv fl (of_int window_seconds) (of_int max_requests));
         wait = (1 - new_tokens) * (of_int window_seconds / of_int max_requests)
     in new_tokens < 1 \<and> max_requests \<noteq> 0 \<and>
        rate_info ''retry_after'' = Some (py_int computed) \<and>
        ((\<forall>x. 0 \<le> x \<longrightarrow> 0 \<le> fl x) \<and> 0 < max_requests \<longrightarrow>
           0 \<le> py_int computed \<and> of_int (py_int computed) \<le> computed \<and>
           computed < of_int (py_int computed) + 1 \<and>
           (\<forall>tol. \<bar>computed - wait\<bar> \<le> tol \<longrightarrow>
              wait - tol - 1 < of_int (py_int computed) \<and> of_int (py_int computed) \<le> wait + tol))"
  using assms(1)
proof (rule check_window_Denied)
  fix b
  let ?nt = "tokens_now fl (map_option fst (kv r (rate_limit_key i e name))) t secs mx"
  assume "mx \<noteq> 0"
    and "tokens_now fl (map_option fst (kv r1 (rate_limit_key i e name))) t secs mx < 1"
    and "rate_info ''retry_after'' =
       Some (py_int (fmul fl (fsub fl 1 (tokens_now fl (map_option fst (kv r1 (rate_limit_key i e name))) t secs mx))
                       (fdiv fl (of_int secs) (of_int mx))))"
  then have mx: "mx \<noteq> 0" and lt: "?nt < 1"
    and ra: "rate_info ''retry_after'' =
       Some (py_int (fmul fl (fsub fl 1 ?nt) (fdiv fl (of_int secs) (of_int mx))))"
    unfolding assms(2) by - assumption+
  note bounds = retry_after_bounds [OF lt assms(3), of fl mx]
  from mx lt ra bounds show ?thesis
    unfolding prod.case Let_def by (intro conjI)
qed

text \<open>
  Claim C5, amended: on every denial there is a window of the call whose refilled token
  count \<open>new_tokens\<close> is below one, whose limit is not zero, and \<open>retry_after\<close> is
  \<open>int(computed)\<close>, where \<open>computed\<close> is the product
  \<open>(1 - new_tokens) * (window_seconds / max_requests)\<close> as line 138 computes it in floats:
  the difference, the quotient and the product each rounded.  When the window's limit is
  positive (and rounding keeps non-negative numbers non-negative) \<open>retry_after\<close> is
  non-negative, at most \<open>computed\<close> and less than one second below it; so if \<open>computed\<close> is
  within \<open>tol\<close> of the exact wait, \<open>retry_after\<close> is above \<open>wait - tol - 1\<close> and at most
  \<open>wait + tol\<close>.
\<close>

theorem retry_after_value:
  assumes "is_allowed fl config (Some r) t identifier endpoint custom_limit = ((False, rate_info), Some r')"
  shows "\<exists>(window_name, window_seconds, max_requests) \<in> set (limits config custom_limit).
     let new_tokens = tokens_now fl
           (map_option fst (kv r (rate_limit_key identifier endpoint window_name)))
           t window_seconds max_requests;
         computed = fmul fl (fsub fl 1 new_tokens)
                      (fdiv fl (of_int window_seconds) (of_int max_requests));
         wait = (1 - new_tokens) * (of_int window_seconds / of_int max_requests)
     in new_tokens < 1 \<and> max_requests \<noteq> 0 \<and>
        rate_info ''retry_after'' = Some (py_int computed) \<and>
        ((\<forall>x. 0 \<le> x \<longrightarrow> 0 \<le> fl x) \<and> 0 < max_requests \<longrightarrow>
           0 \<le> py_int computed \<and> of_int (py_int computed) \<le> computed \<and>
           computed < of_int (py_int computed) + 1 \<and>
           (\<forall>tol. \<bar>computed - wait\<bar> \<le> tol \<longrightarrow>
              wait - tol - 1 < of_int (py_int computed) \<and> of_int (py_int computed) \<le> wait + tol))"
proof -
  let ?kmin = "rate_limit_key identifier endpoint ''minute''"
  let ?khour = "rate_limit_key identifier endpoint ''hour''"
  let ?mx = "py_or custom_limit (requests_per_minute config)"
  let ?wmin = "(''minute'', 60::int, ?mx)"
  let ?whour = "(''hour'', 3600::int, requests_per_hour config)"
  have mem: "?wmin \<in> set (limits config custom_limit)" "?whour \<in> set (limits config custom_limit)"
    by (simp_all add: limits_def)
  from assms have wl: "windows_loop fl r t identifier endpoint (limits config custom_limit) None Map.empty
     = ((False, rate_info), r')"
    by (simp only: is_allowed_eq)
  obtain out r1 where cw: "check_window fl r t ?kmin ?wmin None Map.empty = (out, r1)"
    by (cases "check_window fl r t ?kmin ?wmin None Map.empty")
  show ?thesis
  proof (cases out)
    case (Raised err)
    with wl cw show ?thesis by (simp add: windows_loop_limits)
  next
    case (Denied nfo)
    with wl cw have "check_window fl r t ?kmin ?wmin None Map.empty = (Denied rate_info, r1)"
      by (simp add: windows_loop_limits)
    from denied_window [OF this refl] mem(1) show ?thesis
      by (intro bexI [of _ ?wmin]) simp
  next
    case (Admitted nfo bv)
    obtain out2 r2 where cw2: "check_window fl r1 t ?khour ?whour bv nfo = (out2, r2)"
      by (cases "check_window fl r1 t ?khour ?whour bv nfo")
    with wl cw Admitted have "out2 = Denied rate_info"
      by (cases out2) (simp_all add: windows_loop_limits)
    with cw2 have d2: "check_window fl r1 t ?khour ?whour bv nfo = (Denied rate_info, r2)" by simp
    have ne: "?khour \<noteq> ?kmin" by (simp add: rate_limit_key_def)
    have same: "kv r1 ?khour = kv r ?khour"
      using check_window_other_key [OF ne, of fl r t ?wmin None Map.empty] cw by simp
    from denied_window [OF d2 same] mem(2) show ?thesis
      by (intro bexI [of _ ?whour]) simp
  qed
qed

text \<open>Claim C3: the theorem of this claim at a concrete input, with its hypotheses discharged.\<close>

theorem fail_open_witness:
  "True \<in> set (commands_sent (seeded_store 0 1000 [False, True])
                 (the (snd (is_allowed exact cfg5 (Some (seeded_store 0 1000 [False, True])) 0
                              ''1.2.3.4'' ''/test'' None)))) \<and>
   fst (is_allowed exact cfg5 (Some (seeded_store 0 1000 [False, True])) 0 ''1.2.3.4'' ''/test'' None)
     = (True, Map.empty) \<and>
   is_allowed exact cfg5 None 0 ''1.2.3.4'' ''/test'' None = ((True, Map.empty), None)"
proof -
  let ?r = "seeded_store 0 1000 [False, True]"
  let ?X = "is_allowed exact cfg5 (Some ?r) 0 ''1.2.3.4'' ''/test'' None"
  have h1: "?X = (fst ?X, Some (the (snd ?X)))" by (rule is_allowed_result)
  have "pending (the (snd ?X)) = []" by (simp add: eval_defs)
  then have h2: "True \<in> set (commands_sent ?r (the (snd ?X)))"
    by (simp add: commands_sent_def seeded_store_def)
  from fail_open [of exact cfg5 0 "''1.2.3.4''" "''/test''" None] h1 h2 show ?thesis by blast
qed

text \<open>
  Claim C5 as stated fails twice.  With 0.875 tokens in a minute bucket of limit 5 the
  wait is 1.5 seconds and \<open>retry_after\<close> is 1.  With a minute limit of -5 the call denies
  with \<open>retry_after = -72\<close>.
\<close>

theorem retry_after_counterexample:
  "fst (fst (is_allowed exact cfg5 (Some (seeded_store (7/8) 1000 [])) 0 ''1.2.3.4'' ''/test'' None)) = False \<and>
   snd (fst (is_allowed exact cfg5 (Some (seeded_store (7/8) 1000 [])) 0 ''1.2.3.4'' ''/test'' None))
     ''retry_after'' = Some 1 \<and>
   (1 - tokens_now exact (Some (stored (7/8) 0 0)) 0 60 5) * (60 / 5) = 3 / 2 \<and>
   fst (fst (is_allowed exact (cfg5\<lparr>requests_per_minute := - 5\<rparr>) (Some (seeded_store 0 1000 [])) 0
              ''1.2.3.4'' ''/test'' None)) = False \<and>
   snd (fst (is_allowed exact (cfg5\<lparr>requests_per_minute := - 5\<rparr>) (Some (seeded_store 0 1000 [])) 0
              ''1.2.3.4'' ''/test'' None)) ''retry_after'' = Some (- 72)"
  by (simp add: eval_defs tokens_now_def)

lemma is_allowed_denied_result:
  assumes "\<not> fst (fst (is_allowed fl config (Some r) t i e cl))"
  shows "is_allowed fl config (Some r) t i e cl =
     ((False, snd (fst (is_allowed fl config (Some r) t i e cl))),
      Some (the (snd (is_allowed fl config (Some r) t i e cl))))"
  using assms by (simp add: is_allowed_Some prod_eq_iff)

text \<open>Claim C5: the theorem of this claim at a concrete input, with its hypotheses discharged.\<close>

theorem retry_after_value_witness:
  "\<not> fst (fst (is_allowed exact cfg5 (Some (seeded_store (7/8) 1000 [])) 0 ''1.2.3.4'' ''/test'' None)) \<and>
   (\<exists>(window_name, window_seconds, max_requests) \<in> set (limits cfg5 None).
     let new_tokens = tokens_now exact
           (map_option fst (kv (seeded_store (7/8) 1000 []) (rate_limit_key ''1.2.3.4'' ''/test'' window_name)))
           0 window_seconds max_requests;
         computed = fmul exact (fsub exact 1 new_tokens)
                      (fdiv exact (of_int window_seconds) (of_int max_requests));
         wait = (1 - new_tokens) * (of_int window_seconds / of_int max_requests)
     in new_tokens < 1 \<and> max_requests \<noteq> 0 \<and>
        snd (fst (is_allowed exact cfg5 (Some (seeded_store (7/8) 1000 [])) 0 ''1.2.3.4'' ''/test'' None))
           ''retry_after'' = Some (py_int computed) \<and>
        ((\<forall>x. 0 \<le> x \<longrightarrow> 0 \<le> exact x) \<and> 0 < max_requests \<longrightarrow>
           0 \<le> py_int computed \<and> of_int (py_int computed) \<le> computed \<and>
           computed < of_int (py_int computed) + 1 \<and>
           (\<forall>tol. \<bar>computed - wait\<bar> \<le> tol \<longrightarrow>
              wait - tol - 1 < of_int (py_int computed) \<and> of_int (py_int computed) \<le> wait + tol)))"
proof -
  have d: "\<not> fst (fst (is_allowed exact cfg5 (Some (seeded_store (7/8) 1000 [])) 0 ''1.2.3.4'' ''/test'' None))"
    by (simp add: eval_defs)
  note h = is_allowed_denied_result [OF d]
  show ?thesis
    by (rule conjI [OF d retry_after_value [OF h]])
qed

subsection \<open>A denial by the minute window\<close>

lemma window_result_not_allowed:
  "window_result fl name secs mx t False nt nfo bv =
     (if mx = 0 then Raised ZeroDivisionError
      else Denied (nfo(name @ ''_remaining'' \<mapsto> py_int nt, name @ ''_limit'' \<mapsto> mx,
                name @ ''_reset'' \<mapsto> py_int (fadd fl t (of_int secs)),
                ''retry_after'' \<mapsto>
                  py_int (fmul fl (fsub fl 1 nt) (fdiv fl (of_int secs) (of_int mx))))))"
  by (simp add: window_result_def Let_def)

lemma window_result_allowed:
  "window_result fl name secs mx t True nt nfo bv =
     Admitted (nfo(name @ ''_remaining'' \<mapsto> py_int nt, name @ ''_limit'' \<mapsto> mx,
                name @ ''_reset'' \<mapsto> py_int (fadd fl t (of_int secs)))) bv"
  by (simp add: window_result_def Let_def)

lemma minute_window_denies:
  assumes bucket: "kv r (rate_limit_key identifier endpoint ''minute'') = Some (b, ttl)"
    and denies: "tokens_now fl (Some b) t 60 mx < 1"
    and nofault: "True \<notin> set (take 2 (pending r))"
  shows "check_window fl r t (rate_limit_key identifier endpoint ''minute'') (''minute'', 60, mx)
           None Map.empty =
     (if mx = 0 then Raised ZeroDivisionError
      else Denied [''minute_remaining'' \<mapsto> py_int (tokens_now fl (Some b) t 60 mx),
                   ''minute_limit'' \<mapsto> mx,
                   ''minute_reset'' \<mapsto> py_int (fadd fl t 60),
                   ''retry_after'' \<mapsto>
                     py_int (fmul fl (fsub fl 1 (tokens_now fl (Some b) t 60 mx))
                               (fdiv fl 60 (of_int mx)))],
      r\<lparr>kv := (kv r)(rate_limit_key identifier endpoint ''minute'' \<mapsto>
              (\<lparr>b_tokens = Some (tokens_now fl (Some b) t 60 mx), b_last_refill = Some t,
                b_requests_made = Some (get_or (b_requests_made b) 0)\<rparr>, 120)),
         pending := drop 2 (pending r)\<rparr>)"
proof -
  let ?kmin = "rate_limit_key identifier endpoint ''minute''"
  from nofault have "True \<notin> set (take (Suc (Suc 0)) (pending r))"
    by (simp add: numeral_2_eq_2)
  then have f1: "\<not> faulty r" and "True \<notin> set (take (Suc 0) (pending (sent r)))"
    using take_Suc_not_faulty by blast+
  then have f2: "\<not> faulty (sent r)"
    using take_Suc_not_faulty by blast
  from bucket have bd: "map_option fst (kv r ?kmin) = Some b" by simp
  have bv: "(case map_option fst (kv r ?kmin) of Some b' \<Rightarrow> Some b' | None \<Rightarrow> None) = Some b"
    unfolding bd by simp
  have s60: "(60::int) \<noteq> 0" by simp
  note cw = check_window_ok [OF f1 f2 s60 bv, of fl t "''minute''" mx Map.empty]
  from denies have nle: "\<not> 1 \<le> tokens_now fl (Some b) t 60 mx" by simp
  have upd: "sent (sent r)\<lparr>kv := m\<rparr> = r\<lparr>kv := m, pending := drop 2 (pending r)\<rparr>" for m
    by (simp add: sent_sent)
  show ?thesis
    unfolding cw bd using nle
    by (simp add: window_result_not_allowed upd)
qed




subsection \<open>The wait of one call under binary64 rounding\<close>

text \<open>
  Rounding matters to the value.  Limit 3, an empty minute bucket refilled 18 seconds
  ago: the exact wait is 2 seconds.  On binary64, \<open>3 / 60\<close> rounds up and
  \<open>18 * (3 / 60)\<close> rounds down, to the values assumed below (the other operations of
  this call are exact), and \<open>retry_after\<close> is 1.
\<close>

lemma retry_after_rounded:
  assumes "fl (1 / 20) = 3602879701896397 / 2 ^ 56"
    and "fl (18 * (3602879701896397 / 2 ^ 56)) = 8106479329266893 / 2 ^ 53"
    and "fl 18 = 18" "fl 78 = 78" "fl 20 = 20"
    and "fl (8106479329266893 / 2 ^ 53) = 8106479329266893 / 2 ^ 53"
    and "fl (1 - 8106479329266893 / 2 ^ 53) = 900719925474099 / 2 ^ 53"
    and "fl (900719925474099 / 2 ^ 53 * 20) = 4503599627370495 / 2 ^ 51"
  shows "fst (is_allowed fl (cfg5\<lparr>requests_per_minute := 3\<rparr>) (Some (seeded_store 0 1000 [])) 18
               ''1.2.3.4'' ''/test'' None) =
           (False, [''minute_remaining'' \<mapsto> 0, ''minute_limit'' \<mapsto> 3, ''minute_reset'' \<mapsto> 78,
                    ''retry_after'' \<mapsto> 1])"
proof -
  have rate: "fdiv fl 3 60 = 3602879701896397 / 2 ^ 56"
    using assms(1) by (simp add: fdiv_def)
  have el: "fsub fl 18 0 = 18" using assms(3) by (simp add: fsub_def)
  have add: "fmul fl 18 (3602879701896397 / 2 ^ 56) = 8106479329266893 / 2 ^ 53"
    using assms(2) by (simp only: fmul_def)
  have sum: "fadd fl 0 (8106479329266893 / 2 ^ 53) = 8106479329266893 / 2 ^ 53"
    using assms(6) by (simp only: fadd_def add_0)
  have tn0: "tokens_now fl (Some (stored 0 0 0)) 18 60 3 =
      min 3 (fadd fl 0 (fmul fl (fsub fl 18 0) (fdiv fl 3 60)))"
    by (simp add: tokens_now_def load_bucket_def refill_def stored_def get_or_def Let_def)
  have tn: "tokens_now fl (Some (stored 0 0 0)) 18 60 3 = 8106479329266893 / 2 ^ 53"
    unfolding tn0 el rate add sum by simp
  have lt: "tokens_now fl (Some (stored 0 0 0)) 18 60 3 < 1" unfolding tn by simp
  have d: "fsub fl 1 (8106479329266893 / 2 ^ 53) = 900719925474099 / 2 ^ 53"
    using assms(7) by (simp only: fsub_def)
  have q: "fdiv fl 60 (of_int 3) = 20" using assms(5) by (simp add: fdiv_def)
  have p: "fmul fl (900719925474099 / 2 ^ 53) 20 = 4503599627370495 / 2 ^ 51"
    using assms(8) by (simp only: fmul_def)
  have reset: "fadd fl 18 60 = 78" using assms(4) by (simp add: fadd_def)
  have h1: "kv (seeded_store 0 1000 []) (rate_limit_key ''1.2.3.4'' ''/test'' ''minute'') =
      Some (stored 0 0 0, 120)"
    by (simp add: seeded_store_def rate_limit_key_def)
  have h4: "True \<notin> set (take 2 (pending (seeded_store 0 1000 [])))" by (simp add: seeded_store_def)
  have lim: "py_or None (requests_per_minute (cfg5\<lparr>requests_per_minute := 3\<rparr>)) = 3"
    by (simp add: py_or_def)
  note cw = minute_window_denies [OF h1 lt h4]
  have "windows_loop fl (seeded_store 0 1000 []) 18 ''1.2.3.4'' ''/test''
          (limits (cfg5\<lparr>requests_per_minute := 3\<rparr>) None) None Map.empty =
        ((False, [''minute_remaining'' \<mapsto> py_int (8106479329266893 / 2 ^ 53),
                  ''minute_limit'' \<mapsto> 3, ''minute_reset'' \<mapsto> py_int 78,
                  ''retry_after'' \<mapsto> py_int (4503599627370495 / 2 ^ 51)]),
         snd (check_window fl (seeded_store 0 1000 []) 18
                (rate_limit_key ''1.2.3.4'' ''/test'' ''minute'') (''minute'', 60, 3) None Map.empty))"
    unfolding windows_loop_limits lim cw tn d q p reset by simp
  then show ?thesis
    by (simp add: is_allowed_Some py_int_def)
qed

subsection \<open>The limits the two windows are evaluated with\<close>

lemma no_fault4:
  assumes "True \<notin> set (take 4 (pending r))"
  shows "\<not> faulty r \<and> \<not> faulty (sent r) \<and> \<not> faulty (sent (sent r)) \<and>
    \<not> faulty (sent (sent (sent r)))"
proof -
  from assms have a: "True \<notin> set (take (Suc (Suc (Suc (Suc 0)))) (pending r))"
    by (simp add: eval_nat_numeral)
  from take_Suc_not_faulty [OF a] have f1: "\<not> faulty r"
    and b: "True \<notin> set (take (Suc (Suc (Suc 0))) (pending (sent r)))" by blast+
  from take_Suc_not_faulty [OF b] have f2: "\<not> faulty (sent r)"
    and c: "True \<notin> set (take (Suc (Suc 0)) (pending (sent (sent r))))" by blast+
  from take_Suc_not_faulty [OF c] have f3: "\<not> faulty (sent (sent r))"
    and d: "True \<notin> set (take (Suc 0) (pending (sent (sent (sent r)))))" by blast+
  from take_Suc_not_faulty [OF d] have f4: "\<not> faulty (sent (sent (sent r)))" by blast
  from f1 f2 f3 f4 show ?thesis by (intro conjI)
qed

text \<open>
  Claim C7.  A call with a positive custom limit \<open>c\<close>, a stored minute bucket and no store
  fault.  The minute window is evaluated with \<open>c\<close>: the state written under the minute key
  is the bucket refilled with cap \<open>c\<close> and rate \<open>c / 60\<close>, consumed when at least one token
  is there, and \<open>minute_limit\<close> is \<open>c\<close>.  The hour window is evaluated with
  \<open>requests_per_hour\<close>, whatever \<open>c\<close> is: when the minute window admits, the state written
  under the hour key is the hour bucket refilled with cap \<open>requests_per_hour\<close> and rate
  \<open>requests_per_hour / 3600\<close>, and \<open>hour_limit\<close> is \<open>requests_per_hour\<close>; the call is
  allowed when both counts reach one token and denied when one of them does not.
\<close>

theorem custom_limit_minute_only:
  fixes fl :: rounding and c :: int
  assumes positive: "0 < c"
    and bucket: "kv r (rate_limit_key identifier endpoint ''minute'') = Some (bm, ttl)"
    and nofault: "True \<notin> set (take 4 (pending r))"
    and call: "is_allowed fl config (Some r) t identifier endpoint (Some c) = (res, Some r')"
    and nm: "nm = tokens_now fl (Some bm) t 60 c"
    and nh: "nh = tokens_now fl (map_option fst (kv r (rate_limit_key identifier endpoint ''hour'')))
                    t 3600 (requests_per_hour config)"
    and bh: "bh = (case kv r (rate_limit_key identifier endpoint ''hour'') of
                     Some (b, ttl') \<Rightarrow> b | None \<Rightarrow> bm)"
  shows "limits config (Some c) =
       [(''minute'', 60, c), (''hour'', 3600, requests_per_hour config)] \<and>
     kv r' (rate_limit_key identifier endpoint ''minute'') =
       Some (\<lparr>b_tokens = Some (if 1 \<le> nm then fsub fl nm 1 else nm), b_last_refill = Some t,
              b_requests_made = Some (get_or (b_requests_made bm) 0 + (if 1 \<le> nm then 1 else 0))\<rparr>,
             120) \<and>
     (nm < 1 \<longrightarrow>
        \<not> fst res \<and> snd res ''minute_limit'' = Some c \<and> snd res ''hour_limit'' = None \<and>
        kv r' (rate_limit_key identifier endpoint ''hour'') =
          kv r (rate_limit_key identifier endpoint ''hour'')) \<and>
     (1 \<le> nm \<longrightarrow>
        kv r' (rate_limit_key identifier endpoint ''hour'') =
          Some (\<lparr>b_tokens = Some (if 1 \<le> nh then fsub fl nh 1 else nh), b_last_refill = Some t,
                 b_requests_made = Some (get_or (b_requests_made bh) 0 + (if 1 \<le> nh then 1 else 0))\<rparr>,
                7200)) \<and>
     (1 \<le> nm \<and> 1 \<le> nh \<longrightarrow>
        fst res \<and> snd res ''minute_limit'' = Some c \<and>
        snd res ''hour_limit'' = Some (requests_per_hour config)) \<and>
     (1 \<le> nm \<and> nh < 1 \<and> requests_per_hour config \<noteq> 0 \<longrightarrow>
        \<not> fst res \<and> snd res ''minute_limit'' = Some c \<and>
        snd res ''hour_limit'' = Some (requests_per_hour config))"
proof -
  let ?kmin = "rate_limit_key identifier endpoint ''minute''"
  let ?khour = "rate_limit_key identifier endpoint ''hour''"
  let ?rph = "requests_per_hour config"
  from no_fault4 [OF nofault] have f: "\<not> faulty r" "\<not> faulty (sent r)"
    "\<not> faulty (sent (sent r))" "\<not> faulty (sent (sent (sent r)))" by blast+
  have ne: "?khour \<noteq> ?kmin" "?kmin \<noteq> ?khour" by (simp_all add: rate_limit_key_def)
  from positive have lim: "py_or (Some c) (requests_per_minute config) = c"
    by (simp add: py_or_def)
  from call have wl: "windows_loop fl r t identifier endpoint (limits config (Some c)) None Map.empty
     = (res, r')"
    by (simp only: is_allowed_eq)
  define st1 where "st1 = \<lparr>b_tokens = Some (if 1 \<le> nm then fsub fl nm 1 else nm),
     b_last_refill = Some t,
     b_requests_made = Some (get_or (b_requests_made bm) 0 + (if 1 \<le> nm then 1 else 0))\<rparr>"
  define r1 where "r1 = (sent (sent r))\<lparr>kv := (kv r)(?kmin \<mapsto> (st1, 120))\<rparr>"
  define st2 where "st2 = \<lparr>b_tokens = Some (if 1 \<le> nh then fsub fl nh 1 else nh),
     b_last_refill = Some t,
     b_requests_made = Some (get_or (b_requests_made bh) 0 + (if 1 \<le> nh then 1 else 0))\<rparr>"
  define r2 where "r2 = (sent (sent r1))\<lparr>kv := (kv r1)(?khour \<mapsto> (st2, 7200))\<rparr>"
  define nfo1 where "nfo1 = [''minute_remaining'' \<mapsto> py_int (fsub fl nm 1), ''minute_limit'' \<mapsto> c,
               ''minute_reset'' \<mapsto> py_int (fadd fl t 60)]"
  define out2 where "out2 = window_result fl ''hour'' 3600 ?rph t (1 \<le> nh)
      (if 1 \<le> nh then fsub fl nh 1 else nh) nfo1 (Some bh)"
  text \<open>the minute window\<close>
  from bucket have bd: "map_option fst (kv r ?kmin) = Some bm" by simp
  have bv: "(case map_option fst (kv r ?kmin) of Some b' \<Rightarrow> Some b' | None \<Rightarrow> None) = Some bm"
    unfolding bd by simp
  have s60: "(60::int) \<noteq> 0" by simp
  have cw1: "check_window fl r t ?kmin (''minute'', 60, c) None Map.empty =
      (window_result fl ''minute'' 60 c t (1 \<le> nm) (if 1 \<le> nm then fsub fl nm 1 else nm)
         Map.empty (Some bm), r1)"
    using check_window_ok [OF f(1,2) s60 bv, of fl t "''minute''" c Map.empty]
    unfolding bd nm r1_def st1_def by simp
  have hour1: "kv r1 ?khour = kv r ?khour" unfolding r1_def using ne by simp
  have min1: "kv r1 ?kmin = Some (st1, 120)" unfolding r1_def by simp
  text \<open>the hour window\<close>
  have g: "\<not> faulty r1" "\<not> faulty (sent r1)" unfolding r1_def using f(3,4) by simp_all
  have bv2: "(case map_option fst (kv r1 ?khour) of Some b' \<Rightarrow> Some b' | None \<Rightarrow> Some bm) = Some bh"
    unfolding hour1 bh by (cases "kv r ?khour") auto
  have s3600: "(3600::int) \<noteq> 0" by simp
  have nh1: "tokens_now fl (map_option fst (kv r1 ?khour)) t 3600 ?rph = nh"
    unfolding hour1 nh ..
  have cw2: "check_window fl r1 t ?khour (''hour'', 3600, ?rph) (Some bm) nfo1 = (out2, r2)"
    using check_window_ok [OF g s3600 bv2, of fl t "''hour''" ?rph nfo1]
    unfolding nh1 out2_def r2_def st2_def by simp
  have min2: "kv r2 ?kmin = Some (st1, 120)" unfolding r2_def using ne min1 by simp
  have hour2: "kv r2 ?khour = Some (st2, 7200)" unfolding r2_def by simp
  show ?thesis
  proof (cases "1 \<le> nm")
    case False
    then have out1: "window_result fl ''minute'' 60 c t (1 \<le> nm) (if 1 \<le> nm then fsub fl nm 1 else nm)
         Map.empty (Some bm) =
       Denied [''minute_remaining'' \<mapsto> py_int nm, ''minute_limit'' \<mapsto> c,
               ''minute_reset'' \<mapsto> py_int (fadd fl t 60),
               ''retry_after'' \<mapsto> py_int (fmul fl (fsub fl 1 nm) (fdiv fl 60 (of_int c)))]"
      using positive by (simp add: window_result_not_allowed)
    from wl have "res = (False, [''minute_remaining'' \<mapsto> py_int nm, ''minute_limit'' \<mapsto> c,
               ''minute_reset'' \<mapsto> py_int (fadd fl t 60),
               ''retry_after'' \<mapsto> py_int (fmul fl (fsub fl 1 nm) (fdiv fl 60 (of_int c)))])"
      and "r' = r1"
      unfolding windows_loop_limits lim cw1 out1 by simp_all
    with False hour1 min1 lim show ?thesis unfolding st1_def by (simp add: limits_def)
  next
    case True
    then have out1: "window_result fl ''minute'' 60 c t (1 \<le> nm) (if 1 \<le> nm then fsub fl nm 1 else nm)
         Map.empty (Some bm) = Admitted nfo1 (Some bm)"
      unfolding nfo1_def by (simp add: window_result_allowed)
    from wl have wl2: "(case out2 of
            Raised err \<Rightarrow> ((True, Map.empty), r2)
          | Denied nfo' \<Rightarrow> ((False, nfo'), r2)
          | Admitted nfo' bv' \<Rightarrow> ((True, nfo'), r2)) = (res, r')"
      unfolding windows_loop_limits lim cw1 out1 prod.case outcome.case cw2 .
    then have r': "r' = r2" by (cases out2) auto
    have admitted: "fst res \<and> snd res ''minute_limit'' = Some c \<and> snd res ''hour_limit'' = Some ?rph"
      if "1 \<le> nh"
    proof -
      from that have "out2 = Admitted (nfo1(''hour_remaining'' \<mapsto> py_int (fsub fl nh 1),
          ''hour_limit'' \<mapsto> ?rph, ''hour_reset'' \<mapsto> py_int (fadd fl t 3600))) (Some bh)"
        unfolding out2_def by (simp add: window_result_allowed)
      with wl2 have "res = (True, nfo1(''hour_remaining'' \<mapsto> py_int (fsub fl nh 1),
          ''hour_limit'' \<mapsto> ?rph, ''hour_reset'' \<mapsto> py_int (fadd fl t 3600)))"
        by simp
      then show ?thesis unfolding nfo1_def by simp
    qed
    have denied: "\<not> fst res \<and> snd res ''minute_limit'' = Some c \<and> snd res ''hour_limit'' = Some ?rph"
      if "nh < 1" "?rph \<noteq> 0"
    proof -
      from that have "\<not> 1 \<le> nh" by simp
      with that(2) have "out2 = Denied (nfo1(''hour_remaining'' \<mapsto> py_int nh,
          ''hour_limit'' \<mapsto> ?rph, ''hour_reset'' \<mapsto> py_int (fadd fl t 3600),
          ''retry_after'' \<mapsto> py_int (fmul fl (fsub fl 1 nh) (fdiv fl 3600 (of_int ?rph)))))"
        unfolding out2_def by (simp add: window_result_not_allowed)
      with wl2 have "res = (False, nfo1(''hour_remaining'' \<mapsto> py_int nh,
          ''hour_limit'' \<mapsto> ?rph, ''hour_reset'' \<mapsto> py_int (fadd fl t 3600),
          ''retry_after'' \<mapsto> py_int (fmul fl (fsub fl 1 nh) (fdiv fl 3600 (of_int ?rph)))))"
        by simp
      then show ?thesis unfolding nfo1_def by simp
    qed
    from True min2 hour2 admitted denied lim show ?thesis
      unfolding r' st1_def st2_def by (simp add: limits_def)
  qed
qed

text \<open>Claim C7: the theorem of this claim at a concrete input, with its hypotheses discharged.\<close>

theorem custom_limit_minute_only_witness:
  "(0::int) < 3 \<and>
   kv (seeded_store 5 1000 []) (rate_limit_key ''1.2.3.4'' ''/test'' ''minute'') = Some (stored 5 0 0, 120) \<and>
   True \<notin> set (take 4 (pending (seeded_store 5 1000 []))) \<and>
   requests_per_minute cfg5 = 5 \<and> requests_per_hour cfg5 = 1000 \<and>
   limits cfg5 (Some 3) = [(''minute'', 60, 3), (''hour'', 3600, 1000)] \<and>
   kv (the (snd (is_allowed exact cfg5 (Some (seeded_store 5 1000 [])) 0 ''1.2.3.4'' ''/test'' (Some 3))))
      (rate_limit_key ''1.2.3.4'' ''/test'' ''minute'') = Some (stored 2 0 1, 120) \<and>
   kv (the (snd (is_allowed exact cfg5 (Some (seeded_store 5 1000 [])) 0 ''1.2.3.4'' ''/test'' (Some 3))))
      (rate_limit_key ''1.2.3.4'' ''/test'' ''hour'') = Some (stored 999 0 1, 7200) \<and>
   fst (fst (is_allowed exact cfg5 (Some (seeded_store 5 1000 [])) 0 ''1.2.3.4'' ''/test'' (Some 3))) \<and>
   snd (fst (is_allowed exact cfg5 (Some (seeded_store 5 1000 [])) 0 ''1.2.3.4'' ''/test'' (Some 3)))
      ''minute_limit'' = Some 3 \<and>
   snd (fst (is_allowed exact cfg5 (Some (seeded_store 5 1000 [])) 0 ''1.2.3.4'' ''/test'' (Some 3)))
      ''hour_limit'' = Some 1000"
proof -
  let ?S = "seeded_store 5 1000 []"
  let ?X = "is_allowed exact cfg5 (Some ?S) 0 ''1.2.3.4'' ''/test'' (Some 3)"
  let ?kmin = "rate_limit_key ''1.2.3.4'' ''/test'' ''minute''"
  let ?khour = "rate_limit_key ''1.2.3.4'' ''/test'' ''hour''"
  have h1: "(0::int) < 3" by simp
  have h2: "kv ?S ?kmin = Some (stored 5 0 0, 120)"
    by (simp add: seeded_store_def rate_limit_key_def)
  have h3: "True \<notin> set (take 4 (pending ?S))" by (simp add: seeded_store_def)
  have cfg: "requests_per_minute cfg5 = 5" "requests_per_hour cfg5 = 1000"
    by (simp_all add: cfg5_def)
  note h4 = is_allowed_result [of exact cfg5 ?S 0 "''1.2.3.4''" "''/test''" "Some 3"]
  have hourb: "kv ?S ?khour = Some (stored 1000 0 0, 7200)"
    by (simp add: seeded_store_def rate_limit_key_def)
  have nm: "tokens_now exact (Some (stored 5 0 0)) 0 60 3 = 3"
    by (simp add: tokens_now_def load_bucket_def refill_def stored_def get_or_def Let_def
        fadd_def fsub_def fmul_def fdiv_def exact_def)
  have nh: "tokens_now exact (map_option fst (kv ?S ?khour)) 0 3600 1000 = 1000"
    unfolding hourb
    by (simp add: tokens_now_def load_bucket_def refill_def stored_def get_or_def Let_def
        fadd_def fsub_def fmul_def fdiv_def exact_def)
  have bh: "(case kv ?S ?khour of Some (b, ttl') \<Rightarrow> b | None \<Rightarrow> stored 5 0 0) = stored 1000 0 0"
    unfolding hourb by simp
  note inst0 = custom_limit_minute_only [OF h1 h2 h3 h4 refl refl refl]
  note inst = inst0 [unfolded cfg, unfolded nm nh bh]
  from inst have c1: "kv (the (snd ?X)) ?kmin = Some (stored 2 0 1, 120)"
    by (simp add: stored_def get_or_def fsub_def exact_def)
  from inst have c2: "kv (the (snd ?X)) ?khour = Some (stored 999 0 1, 7200)"
    by (simp add: stored_def get_or_def fsub_def exact_def)
  from inst have c0: "limits cfg5 (Some 3) = [(''minute'', 60, 3), (''hour'', 3600, 1000)]"
    by simp
  from inst have c3: "fst (fst ?X)" and c4: "snd (fst ?X) ''minute_limit'' = Some 3"
    and c5: "snd (fst ?X) ''hour_limit'' = Some 1000"
    by simp_all
  show ?thesis by (intro conjI h1 h2 h3 cfg c0 c1 c2 c3 c4 c5)
qed

text \<open>Claim C10: the theorem of this claim at a concrete input, with its hypotheses discharged.\<close>

theorem consumed_token_not_rolled_back_witness:
  "check_window exact (seeded_store 5 1000 [False, False, True]) 0
      (rate_limit_key ''1.2.3.4'' ''/test'' ''minute'')
      (''minute'', 60, py_or None (requests_per_minute cfg5)) None Map.empty =
     (Admitted [''minute_remaining'' \<mapsto> 4, ''minute_limit'' \<mapsto> 5, ''minute_reset'' \<mapsto> 60]
        (Some (stored 5 0 0)),
      \<lparr>kv = (kv (seeded_store 5 1000 [False, False, True]))
              (rate_limit_key ''1.2.3.4'' ''/test'' ''minute'' \<mapsto> (stored 4 0 1, 120)),
       pending = [True]\<rparr>) \<and>
   True \<in> set (take 2 [True]) \<and>
   fst (is_allowed exact cfg5 (Some (seeded_store 5 1000 [False, False, True])) 0 ''1.2.3.4'' ''/test'' None)
     = (True, Map.empty) \<and>
   (\<exists>b new_tokens.
       map_option fst (kv (seeded_store 5 1000 [False, False, True])
                          (rate_limit_key ''1.2.3.4'' ''/test'' ''minute'')) = Some b \<and>
       new_tokens = tokens_now exact (Some b) 0 60 (py_or None (requests_per_minute cfg5)) \<and>
       1 \<le> new_tokens \<and>
       kv (the (snd (is_allowed exact cfg5 (Some (seeded_store 5 1000 [False, False, True])) 0
                       ''1.2.3.4'' ''/test'' None)))
          (rate_limit_key ''1.2.3.4'' ''/test'' ''minute'') =
         Some (\<lparr>b_tokens = Some (fsub exact new_tokens 1), b_last_refill = Some 0,
                b_requests_made = Some (get_or (b_requests_made b) 0 + 1)\<rparr>, 120))"
proof -
  let ?S = "seeded_store 5 1000 [False, False, True]"
  let ?R1 = "\<lparr>kv = (kv ?S)(rate_limit_key ''1.2.3.4'' ''/test'' ''minute'' \<mapsto> (stored 4 0 1, 120)),
       pending = [True]\<rparr>"
  have h1: "check_window exact ?S 0 (rate_limit_key ''1.2.3.4'' ''/test'' ''minute'')
      (''minute'', 60, py_or None (requests_per_minute cfg5)) None Map.empty =
     (Admitted [''minute_remaining'' \<mapsto> 4, ''minute_limit'' \<mapsto> 5, ''minute_reset'' \<mapsto> 60]
        (Some (stored 5 0 0)), ?R1)"
    by (simp add: eval_defs)
  have h2: "True \<in> set (take 2 (pending ?R1))" by simp
  have h2': "True \<in> set (take 2 [True])" by simp
  note h3 = is_allowed_result [of exact cfg5 ?S 0 "''1.2.3.4''" "''/test''" None]
  from consumed_token_not_rolled_back [OF h1 h2 h3] h1 h2' show ?thesis
    by (intro conjI) (erule conjE, assumption)+
qed

subsection \<open>The invariant of a bucket\<close>

text \<open>
  What the invariant needs of the rounding: it is monotone, it leaves zero alone, and it
  leaves the window's limit alone.  Round-to-nearest on binary64 has all three for limits
  below \<open>2 ^ 53\<close>.
\<close>

lemma refill_bounds:
  assumes "0 \<le> tok" "tok \<le> of_int mx" "last_refill \<le> t" "0 < secs"
    and mono: "\<forall>x y. x \<le> y \<longrightarrow> fl x \<le> fl y" and zero: "fl 0 = 0"
  shows "0 \<le> refill fl mx secs tok last_refill t \<and> refill fl mx secs tok last_refill t \<le> of_int mx"
proof -
  have nonneg: "0 \<le> fl x" if "0 \<le> x" for x
    using mono that zero by (metis)
  from assms(1,2) have mx: "0 \<le> real_of_int mx" by simp
  with assms(4) have "0 \<le> real_of_int mx / real_of_int secs" by simp
  then have rate: "0 \<le> fdiv fl (of_int mx) (of_int secs)"
    unfolding fdiv_def by (rule nonneg)
  from assms(3) have "0 \<le> t - last_refill" by simp
  then have el: "0 \<le> fsub fl t last_refill" unfolding fsub_def by (rule nonneg)
  from el rate have "0 \<le> fsub fl t last_refill * fdiv fl (of_int mx) (of_int secs)"
    by (rule mult_nonneg_nonneg)
  then have add: "0 \<le> fmul fl (fsub fl t last_refill) (fdiv fl (of_int mx) (of_int secs))"
    unfolding fmul_def by (rule nonneg)
  with assms(1) have "0 \<le> tok + fmul fl (fsub fl t last_refill) (fdiv fl (of_int mx) (of_int secs))"
    by simp
  then have "0 \<le> fadd fl tok (fmul fl (fsub fl t last_refill) (fdiv fl (of_int mx) (of_int secs)))"
    unfolding fadd_def by (rule nonneg)
  with mx show ?thesis by (simp add: refill_def Let_def)
qed

lemma tokens_now_bounds:
  assumes "case bd of
             Some b \<Rightarrow> 0 \<le> get_or (b_tokens b) (of_int mx) \<and> get_or (b_tokens b) (of_int mx) \<le> of_int mx \<and>
                       get_or (b_last_refill b) t \<le> t
           | None \<Rightarrow> 0 \<le> mx"
    and "0 < secs"
    and mono: "\<forall>x y. x \<le> y \<longrightarrow> fl x \<le> fl y" and zero: "fl 0 = 0"
  shows "0 \<le> tokens_now fl bd t secs mx \<and> tokens_now fl bd t secs mx \<le> of_int mx"
proof (cases bd)
  case None
  with assms have "0 \<le> real_of_int mx" by simp
  then have "0 \<le> refill fl mx secs (of_int mx) t t \<and> refill fl mx secs (of_int mx) t t \<le> of_int mx"
    using assms(2) mono zero by (intro refill_bounds) simp_all
  with None show ?thesis by (simp add: tokens_now_def load_bucket_def)
next
  case (Some b)
  with assms(1) have "0 \<le> get_or (b_tokens b) (of_int mx)" "get_or (b_tokens b) (of_int mx) \<le> of_int mx"
    "get_or (b_last_refill b) t \<le> t" by simp_all
  then have "0 \<le> refill fl mx secs (get_or (b_tokens b) (of_int mx)) (get_or (b_last_refill b) t) t \<and>
     refill fl mx secs (get_or (b_tokens b) (of_int mx)) (get_or (b_last_refill b) t) t \<le> of_int mx"
    using assms(2) mono zero by (intro refill_bounds)
  with Some show ?thesis by (simp add: tokens_now_def load_bucket_def)
qed

lemma consumed_bounds:
  assumes "1 \<le> x" "x \<le> of_int mx"
    and mono: "\<forall>x y. x \<le> y \<longrightarrow> fl x \<le> fl y" and zero: "fl 0 = 0"
    and limit: "fl (of_int mx) = of_int mx"
  shows "0 \<le> fsub fl x 1 \<and> fsub fl x 1 \<le> of_int mx"
proof -
  from assms(1) have "0 \<le> x - 1" by simp
  with mono have "fl 0 \<le> fl (x - 1)" by blast
  with zero have a: "0 \<le> fsub fl x 1" by (simp add: fsub_def)
  from assms(2) have "x - 1 \<le> of_int mx" by simp
  with mono have "fl (x - 1) \<le> fl (of_int mx)" by blast
  with limit have "fsub fl x 1 \<le> of_int mx" by (simp add: fsub_def)
  with a show ?thesis ..
qed

lemma check_window_inv:
  assumes cw: "check_window fl r t key (name, secs, mx) bv nfo = (out, r1)"
    and secs: "0 < secs"
    and pre: "case kv r key of
             Some (b, ttl) \<Rightarrow> 0 \<le> get_or (b_tokens b) (of_int mx) \<and> get_or (b_tokens b) (of_int mx) \<le> of_int mx \<and>
                       get_or (b_last_refill b) t \<le> t
           | None \<Rightarrow> 0 \<le> mx"
    and post: "kv r1 key = Some (b', ttl')"
    and mono: "\<forall>x y. x \<le> y \<longrightarrow> fl x \<le> fl y" and zero: "fl 0 = 0"
    and limit: "fl (of_int mx) = of_int mx"
  shows "0 \<le> get_or (b_tokens b') (of_int mx) \<and> get_or (b_tokens b') (of_int mx) \<le> of_int mx \<and>
     (\<forall>b ttl. kv r key = Some (b, ttl) \<longrightarrow> get_or (b_requests_made b) 0 \<le> get_or (b_requests_made b') 0)"
proof -
  have untouched: ?thesis if "kv r1 = kv r"
  proof -
    from that post have "kv r key = Some (b', ttl')" by simp
    with pre show ?thesis by simp
  qed
  show ?thesis
  proof (cases rule: check_window_cases [where fl=fl and r=r and t=t and key=key and w="(name, secs, mx)" and bv=bv and nfo=nfo])
    case get_raises
    with cw show ?thesis by (intro untouched) auto
  next
    case (computes_raises err)
    with cw show ?thesis by (intro untouched) auto
  next
    case (write_raises al nt st b1)
    with cw show ?thesis by (intro untouched) auto
  next
    case (written al nt st b1)
    with cw post have b': "b' = st" by auto
    let ?bd = "map_option fst (kv r key)"
    have pre': "case ?bd of
             Some b \<Rightarrow> 0 \<le> get_or (b_tokens b) (of_int mx) \<and> get_or (b_tokens b) (of_int mx) \<le> of_int mx \<and>
                       get_or (b_last_refill b) t \<le> t
           | None \<Rightarrow> 0 \<le> mx"
      using pre by (cases "kv r key") auto
    from tokens_now_bounds [OF pre' secs mono zero]
    have tb: "0 \<le> tokens_now fl ?bd t secs mx" "tokens_now fl ?bd t secs mx \<le> of_int mx" by simp_all
    from written(3) have ns: "next_state fl ?bd bv t secs mx = Inr (al, nt, st, b1)" by simp
    from ns show ?thesis
    proof (rule next_state_Inr)
      fix b0
      assume b0: "(case ?bd of Some b' \<Rightarrow> Some b' | None \<Rightarrow> bv) = Some b0"
        and al: "al = (1 \<le> tokens_now fl ?bd t secs mx)"
        and nt: "nt = (if al then fsub fl (tokens_now fl ?bd t secs mx) 1 else tokens_now fl ?bd t secs mx)"
        and st: "st = \<lparr>b_tokens = Some nt, b_last_refill = Some t,
           b_requests_made = Some (get_or (b_requests_made b0) 0 + (if al then 1 else 0))\<rparr>"
      have "0 \<le> nt \<and> nt \<le> of_int mx"
      proof (cases al)
        case True
        with al tb have "1 \<le> tokens_now fl ?bd t secs mx" by simp
        from consumed_bounds [OF this tb(2) mono zero limit] True nt show ?thesis by simp
      next
        case False
        with nt tb show ?thesis by simp
      qed
      then have "0 \<le> nt" "nt \<le> of_int mx" by blast+
      moreover have "get_or (b_requests_made b) 0 \<le> get_or (b_requests_made st) 0"
        if "kv r key = Some (b, ttl)" for b ttl
      proof -
        from that b0 have "b0 = b" by simp
        with st show ?thesis by (simp add: get_or_def)
      qed
      ultimately show ?thesis unfolding b' using st by (simp add: get_or_def)
    qed
  qed
qed

text \<open>
  Claim C8, amended: for a window of the call, assume the state stored under its key, if
  any, has \<open>0 \<le> tokens \<le> max_requests\<close> and \<open>last_refill \<le> now\<close>, and assume
  \<open>0 \<le> max_requests\<close> when nothing is stored.  Then the state under that key after the
  call has \<open>0 \<le> tokens \<le> max_requests\<close>, and its \<open>requests_made\<close> is at least that of
  the state before.  This holds for exact arithmetic and for every rounding that is
  monotone and leaves zero and the limit alone.
\<close>

theorem bucket_invariant_preserved:
  assumes call: "is_allowed fl config (Some r) t identifier endpoint custom_limit = (res, Some r')"
    and window: "(window_name, window_seconds, max_requests) \<in> set (limits config custom_limit)"
    and pre: "case kv r (rate_limit_key identifier endpoint window_name) of
         Some (b, ttl) \<Rightarrow>
           0 \<le> get_or (b_tokens b) (of_int max_requests) \<and>
           get_or (b_tokens b) (of_int max_requests) \<le> of_int max_requests \<and>
           get_or (b_last_refill b) t \<le> t
       | None \<Rightarrow> 0 \<le> max_requests"
    and post: "kv r' (rate_limit_key identifier endpoint window_name) = Some (b', ttl')"
    and mono: "\<forall>x y. x \<le> y \<longrightarrow> fl x \<le> fl y"
    and zero: "fl 0 = 0"
    and limit: "fl (of_int max_requests) = of_int max_requests"
  shows "0 \<le> get_or (b_tokens b') (of_int max_requests) \<and>
     get_or (b_tokens b') (of_int max_requests) \<le> of_int max_requests \<and>
     (\<forall>b ttl. kv r (rate_limit_key identifier endpoint window_name) = Some (b, ttl) \<longrightarrow>
        get_or (b_requests_made b) 0 \<le> get_or (b_requests_made b') 0)"
proof -
  let ?kmin = "rate_limit_key identifier endpoint ''minute''"
  let ?khour = "rate_limit_key identifier endpoint ''hour''"
  let ?key = "rate_limit_key identifier endpoint window_name"
  let ?mx = "py_or custom_limit (requests_per_minute config)"
  let ?wmin = "(''minute'', 60::int, ?mx)"
  let ?whour = "(''hour'', 3600::int, requests_per_hour config)"
  have ne: "?khour \<noteq> ?kmin" "?kmin \<noteq> ?khour" by (simp_all add: rate_limit_key_def)
  from call have wl: "windows_loop fl r t identifier endpoint (limits config custom_limit) None Map.empty
     = (res, r')"
    by (simp only: is_allowed_eq)
  obtain out r1 where cw: "check_window fl r t ?kmin ?wmin None Map.empty = (out, r1)"
    by (cases "check_window fl r t ?kmin ?wmin None Map.empty")
  have hour1: "kv r1 ?khour = kv r ?khour"
    using check_window_other_key [OF ne(1), of fl r t ?wmin None Map.empty] cw by simp
  have untouched: ?thesis if "kv r' ?key = kv r ?key"
  proof -
    from that post have "kv r ?key = Some (b', ttl')" by simp
    with pre show ?thesis by simp
  qed
  from window consider
    (minute) "window_name = ''minute''" "window_seconds = 60" "max_requests = ?mx"
    | (hour) "window_name = ''hour''" "window_seconds = 3600" "max_requests = requests_per_hour config"
    by (auto simp: limits_def)
  then show ?thesis
  proof cases
    case minute
    have "kv r' ?kmin = kv r1 ?kmin"
    proof (cases out)
      case (Admitted nfo bv)
      with wl cw have "r' = snd (check_window fl r1 t ?khour ?whour bv nfo)"
        by (auto simp: windows_loop_limits split: prod.splits outcome.splits)
      then show ?thesis using check_window_other_key [OF ne(2)] by simp
    qed (use wl cw in \<open>auto simp: windows_loop_limits\<close>)
    with post minute have post1: "kv r1 ?kmin = Some (b', ttl')" by simp
    from pre have pre1: "case kv r ?kmin of
         Some (b, ttl) \<Rightarrow>
           0 \<le> get_or (b_tokens b) (of_int ?mx) \<and> get_or (b_tokens b) (of_int ?mx) \<le> of_int ?mx \<and>
           get_or (b_last_refill b) t \<le> t
       | None \<Rightarrow> 0 \<le> ?mx" unfolding minute .
    from limit have limit1: "fl (of_int ?mx) = of_int ?mx" unfolding minute .
    from check_window_inv [OF cw _ pre1 post1 mono zero limit1] show ?thesis unfolding minute by simp
  next
    case hour
    show ?thesis
    proof (cases out)
      case (Raised err)
      with wl cw have "r' = r1" by (auto simp: windows_loop_limits)
      with hour1 hour show ?thesis by (intro untouched) simp
    next
      case (Denied nfo)
      with wl cw have "r' = r1" by (auto simp: windows_loop_limits)
      with hour1 hour show ?thesis by (intro untouched) simp
    next
      case (Admitted nfo bv)
      obtain out2 r2 where cw2: "check_window fl r1 t ?khour ?whour bv nfo = (out2, r2)"
        by (cases "check_window fl r1 t ?khour ?whour bv nfo")
      with wl cw Admitted have "r' = r2"
        by (auto simp: windows_loop_limits split: outcome.splits)
      with post hour have post2: "kv r2 ?khour = Some (b', ttl')" by simp
      from pre have pre2: "case kv r1 ?khour of
         Some (b, ttl) \<Rightarrow>
           0 \<le> get_or (b_tokens b) (of_int (requests_per_hour config)) \<and>
           get_or (b_tokens b) (of_int (requests_per_hour config)) \<le> of_int (requests_per_hour config) \<and>
           get_or (b_last_refill b) t \<le> t
       | None \<Rightarrow> 0 \<le> requests_per_hour config" unfolding hour hour1 .
      from limit have limit2: "fl (of_int (requests_per_hour config)) = of_int (requests_per_hour config)"
        unfolding hour .
      from check_window_inv [OF cw2 _ pre2 post2 mono zero limit2] show ?thesis
        unfolding hour hour1 by simp
    qed
  qed
qed

text \<open>
  Claim C8 as stated fails when nothing is stored under the hour key and
  \<open>requests_per_hour\<close> is negative: the minute bucket satisfies the invariant, and the call
  writes an hour bucket with \<open>tokens = -1\<close>.
\<close>

theorem bucket_invariant_counterexample:
  "kv minute_only_store (rate_limit_key ''1.2.3.4'' ''/test'' ''hour'') = None \<and>
   kv minute_only_store (rate_limit_key ''1.2.3.4'' ''/test'' ''minute'') = Some (stored 5 0 0, 120) \<and>
   (''hour'', 3600, - 1) \<in> set (limits (cfg5\<lparr>requests_per_hour := - 1\<rparr>) None) \<and>
   kv (the (snd (is_allowed exact (cfg5\<lparr>requests_per_hour := - 1\<rparr>) (Some minute_only_store) 0
                   ''1.2.3.4'' ''/test'' None)))
      (rate_limit_key ''1.2.3.4'' ''/test'' ''hour'') = Some (stored (- 1) 0 0, 7200) \<and>
   \<not> 0 \<le> get_or (b_tokens (stored (- 1) 0 0)) (- 1)"
  by (simp add: eval_defs minute_only_store_def)

text \<open>Claim C8: the theorem of this claim at a concrete input, with its hypotheses discharged.\<close>

theorem bucket_invariant_preserved_witness:
  "exact 0 = 0 \<and> exact (of_int 5) = of_int 5 \<and>
   (''minute'', 60, 5) \<in> set (limits cfg5 None) \<and>
   (case kv (seeded_store 5 1000 []) (rate_limit_key ''1.2.3.4'' ''/test'' ''minute'') of
         Some (b, ttl) \<Rightarrow>
           0 \<le> get_or (b_tokens b) (of_int 5) \<and> get_or (b_tokens b) (of_int 5) \<le> of_int 5 \<and>
           get_or (b_last_refill b) 0 \<le> 0
       | None \<Rightarrow> 0 \<le> (5::int)) \<and>
   kv (the (snd (is_allowed exact cfg5 (Some (seeded_store 5 1000 [])) 0 ''1.2.3.4'' ''/test'' None)))
      (rate_limit_key ''1.2.3.4'' ''/test'' ''minute'') = Some (stored 4 0 1, 120) \<and>
   0 \<le> get_or (b_tokens (stored 4 0 1)) (of_int 5) \<and>
   get_or (b_tokens (stored 4 0 1)) (of_int 5) \<le> of_int 5 \<and>
   kv (seeded_store 5 1000 []) (rate_limit_key ''1.2.3.4'' ''/test'' ''minute'') = Some (stored 5 0 0, 120) \<and>
   get_or (b_requests_made (stored 5 0 0)) 0 \<le> get_or (b_requests_made (stored 4 0 1)) 0"
proof -
  let ?S = "seeded_store 5 1000 []"
  note h1 = is_allowed_result [of exact cfg5 ?S 0 "''1.2.3.4''" "''/test''" None]
  have h2: "(''minute'', 60, 5) \<in> set (limits cfg5 None)"
    by (simp add: limits_def py_or_def cfg5_def)
  have h3: "case kv ?S (rate_limit_key ''1.2.3.4'' ''/test'' ''minute'') of
         Some (b, ttl) \<Rightarrow>
           0 \<le> get_or (b_tokens b) (of_int 5) \<and> get_or (b_tokens b) (of_int 5) \<le> of_int 5 \<and>
           get_or (b_last_refill b) 0 \<le> 0
       | None \<Rightarrow> 0 \<le> (5::int)"
    by (simp add: seeded_store_def stored_def rate_limit_key_def get_or_def)
  have h4: "kv (the (snd (is_allowed exact cfg5 (Some ?S) 0 ''1.2.3.4'' ''/test'' None)))
      (rate_limit_key ''1.2.3.4'' ''/test'' ''minute'') = Some (stored 4 0 1, 120)"
    by (simp add: eval_defs)
  have h5: "kv ?S (rate_limit_key ''1.2.3.4'' ''/test'' ''minute'') = Some (stored 5 0 0, 120)"
    by (simp add: seeded_store_def rate_limit_key_def)
  have m: "\<forall>x y. x \<le> y \<longrightarrow> exact x \<le> exact y" "exact 0 = 0" "exact (of_int 5) = of_int 5"
    by (simp_all add: exact_def)
  note concl = bucket_invariant_preserved [OF h1 h2 h3 h4 m]
  from concl h5 have rm: "get_or (b_requests_made (stored 5 0 0)) 0 \<le> get_or (b_requests_made (stored 4 0 1)) 0"
    by blast
  from concl have tok: "0 \<le> get_or (b_tokens (stored 4 0 1)) (of_int 5)"
    "get_or (b_tokens (stored 4 0 1)) (of_int 5) \<le> of_int 5" by blast+
  show ?thesis by (intro conjI m(2,3) h2 h3 h4 h5 rm tok)
qed

subsection \<open>The middleware\<close>

text \<open>
  Claim C9, amended: for a request outside the excluded paths that the limiter allows and
  the downstream handler answers, the middleware returns the downstream response with the
  three \<open>X-RateLimit-*\<close> headers set when the info is not empty, and returns it unchanged
  when the info is empty (the fail-open case).
\<close>

theorem allowed_response_headers:
  assumes "\<not> list_ex (startswith (path request)) excluded_paths"
    and "is_allowed fl config redis_client t (identifier_of request) (path request)
           (endpoint_limits (path request)) = ((True, rate_info), redis_client')"
    and "call_next request world = (Inr response, world')"
  shows "dispatch fl config redis_client t header_time request call_next world =
      (Inr (if rate_info = Map.empty then response
            else response\<lparr>headers := (headers response)
                   (''X-RateLimit-Limit'' \<mapsto> limit_header config rate_info,
                    ''X-RateLimit-Remaining'' \<mapsto> remaining_header rate_info,
                    ''X-RateLimit-Reset'' \<mapsto> reset_header rate_info header_time)\<rparr>),
       redis_client', world')"
  using assms by (simp add: dispatch_def Let_def)

lemmas request_defs = test_request_def identifier_of_def get_client_ip_def get_user_id_def
  endpoint_limits_def excluded_paths_def startswith_def ok_handler_def

text \<open>
  Claim C9 as stated fails in the fail-open case: without a store client the limiter
  allows with an empty info, and the response returned is the downstream response, with no
  \<open>X-RateLimit-Limit\<close>, \<open>X-RateLimit-Remaining\<close> or \<open>X-RateLimit-Reset\<close> header.
\<close>

theorem allowed_response_headers_counterexample:
  "\<not> list_ex (startswith (path test_request)) excluded_paths \<and>
   fst (fst (is_allowed exact cfg5 None 0 (identifier_of test_request) (path test_request)
               (endpoint_limits (path test_request)))) \<and>
   fst (dispatch exact cfg5 None 0 0 test_request ok_handler 0) = Inr ok_response \<and>
   headers ok_response ''X-RateLimit-Limit'' = None \<and>
   headers ok_response ''X-RateLimit-Remaining'' = None \<and>
   headers ok_response ''X-RateLimit-Reset'' = None"
  by (simp add: dispatch_def is_allowed_def request_defs ok_response_def Let_def)

lemma allowed_result:
  "fst (fst X) \<Longrightarrow> X = ((True, snd (fst X)), snd X)"
  by (cases X) auto

text \<open>Claim C9: the theorem of this claim at a concrete input, with its hypotheses discharged.\<close>

theorem allowed_response_headers_witness:
  "\<not> list_ex (startswith (path test_request)) excluded_paths \<and>
   fst (fst (is_allowed exact cfg5 (Some (seeded_store 5 1000 [])) 0 (identifier_of test_request)
               (path test_request) (endpoint_limits (path test_request)))) \<and>
   ok_handler test_request 0 = (Inr ok_response, Suc 0) \<and>
   fst (dispatch exact cfg5 (Some (seeded_store 5 1000 [])) 0 0 test_request ok_handler 0) =
     Inr (ok_response\<lparr>headers := (headers ok_response)
            (''X-RateLimit-Limit'' \<mapsto> ''5'', ''X-RateLimit-Remaining'' \<mapsto> ''4'',
             ''X-RateLimit-Reset'' \<mapsto> ''60'')\<rparr>)"
proof -
  let ?X = "is_allowed exact cfg5 (Some (seeded_store 5 1000 [])) 0 (identifier_of test_request)
               (path test_request) (endpoint_limits (path test_request))"
  have h1: "\<not> list_ex (startswith (path test_request)) excluded_paths"
    by (simp add: request_defs)
  have id: "identifier_of test_request = ''1.2.3.4''" "path test_request = ''/test''"
    "endpoint_limits ''/test'' = None"
    by (simp_all add: request_defs)
  have al: "fst (fst ?X)" unfolding id by (simp add: eval_defs)
  note h2 = allowed_result [OF al]
  have h3: "ok_handler test_request 0 = (Inr ok_response, Suc 0)" by (simp add: ok_handler_def)
  have info: "snd (fst ?X) ''minute_limit'' = Some 5" "snd (fst ?X) ''minute_remaining'' = Some 4"
    "snd (fst ?X) ''minute_reset'' = Some 60"
    unfolding id by (simp_all add: eval_defs)
  then have ne: "snd (fst ?X) \<noteq> Map.empty" by auto
  have s5: "str_int 5 = ''5''" "str_int 4 = ''4''" "str_int 60 = ''60''"
    by (simp_all add: str_int_def str_nat.simps digit_char_def)
  from allowed_response_headers [where call_next=ok_handler and request=test_request and world=0
      and header_time=0, OF h1 h2 h3]
  have "fst (dispatch exact cfg5 (Some (seeded_store 5 1000 [])) 0 0 test_request ok_handler 0) =
     Inr (ok_response\<lparr>headers := (headers ok_response)
            (''X-RateLimit-Limit'' \<mapsto> ''5'', ''X-RateLimit-Remaining'' \<mapsto> ''4'',
             ''X-RateLimit-Reset'' \<mapsto> ''60'')\<rparr>)"
    using ne info s5 by (simp add: limit_header_def remaining_header_def reset_header_def get_or_def)
  with h1 al h3 show ?thesis by (intro conjI)
qed

end
